theory Spec2Isabelle
  imports Main "HOL-Library.AList"
begin

chapter \<open>The model\<close>

section \<open>JavaScript strings\<close>

text \<open>
  A string is a list of characters; a \<^typ>\<open>char\<close> stands for a UTF-16 code unit below
  256, which covers every character that the validators of the source accept.
  \<^verbatim>\<open>trim\<close> strips the white space of ECMAScript in that range: tab, line feed,
  vertical tab, form feed, carriage return, space and no-break space.
\<close>

definition is_space :: "char \<Rightarrow> bool" where
  "is_space c = (of_char c \<in> {9, 10, 11, 12, 13, 32, 160 :: nat})"

definition trim :: "string \<Rightarrow> string" where
  "trim s = rev (dropWhile is_space (rev (dropWhile is_space s)))"

definition is_digit :: "char \<Rightarrow> bool" where
  "is_digit c = (let n = of_char c :: nat in 48 \<le> n \<and> n \<le> 57)"

definition is_alpha :: "char \<Rightarrow> bool" where
  "is_alpha c = (let n = of_char c :: nat in (65 \<le> n \<and> n \<le> 90) \<or> (97 \<le> n \<and> n \<le> 122))"

definition is_alnum :: "char \<Rightarrow> bool" where
  "is_alnum c = (is_alpha c \<or> is_digit c)"

text \<open>\<^verbatim>\<open>/^[class]+$/.test(s)\<close> for a character class: non-empty, every character in the class.\<close>

definition all_in_class :: "(char \<Rightarrow> bool) \<Rightarrow> string \<Rightarrow> bool" where
  "all_in_class cls s = (s \<noteq> [] \<and> list_all cls s)"

text \<open>\<^verbatim>\<open>s.startsWith(p)\<close> and \<^verbatim>\<open>s.includes(p)\<close>.\<close>

fun startsWith :: "string \<Rightarrow> string \<Rightarrow> bool" where
  "startsWith s [] = True"
| "startsWith [] (p # ps) = False"
| "startsWith (c # cs) (p # ps) = (c = p \<and> startsWith cs ps)"

fun includes_str :: "string \<Rightarrow> string \<Rightarrow> bool" where
  "includes_str [] p = (p = [])"
| "includes_str (c # cs) p = (startsWith (c # cs) p \<or> includes_str cs p)"

text \<open>
  \<^verbatim>\<open>s.split(sep)\<close> for a separator given by a predicate on characters: the pieces
  between separators, at least one piece, empty pieces kept.
\<close>

fun split_where :: "(char \<Rightarrow> bool) \<Rightarrow> string \<Rightarrow> string list" where
  "split_where sep [] = [[]]"
| "split_where sep (c # cs) =
     (if sep c then [] # split_where sep cs
      else (case split_where sep cs of
              [] \<Rightarrow> [[c]]
            | piece # pieces \<Rightarrow> (c # piece) # pieces))"

definition split_char :: "char \<Rightarrow> string \<Rightarrow> string list" where
  "split_char c s = split_where (\<lambda>x. x = c) s"

text \<open>\<^verbatim>\<open>s.split(sep)[0]\<close>: a split has at least one piece.\<close>

definition first_piece :: "string list \<Rightarrow> string" where
  "first_piece ps = (case ps of [] \<Rightarrow> [] | p # _ \<Rightarrow> p)"

text \<open>\<^verbatim>\<open>s.indexOf(c)\<close> for one character: \<open>None\<close> stands for \<open>-1\<close>.\<close>

fun indexOf :: "string \<Rightarrow> char \<Rightarrow> nat option" where
  "indexOf [] c = None"
| "indexOf (x # xs) c = (if x = c then Some 0 else map_option Suc (indexOf xs c))"

text \<open>\<^verbatim>\<open>parts.join(sep)\<close>\<close>

fun join :: "string \<Rightarrow> string list \<Rightarrow> string" where
  "join sep [] = []"
| "join sep [p] = p"
| "join sep (p # q # ps) = p @ sep @ join sep (q # ps)"

text \<open>
  \<^verbatim>\<open>s.toLowerCase()\<close> on code units below 256: the letters A to Z and the upper-case
  letters of Latin-1 move up by 32.
\<close>

definition lower_char :: "char \<Rightarrow> char" where
  "lower_char c =
     (let n = of_char c :: nat
      in if (65 \<le> n \<and> n \<le> 90) \<or> (192 \<le> n \<and> n \<le> 222 \<and> n \<noteq> 215) then char_of (n + 32) else c)"

definition toLowerCase :: "string \<Rightarrow> string" where
  "toLowerCase s = map lower_char s"

text \<open>
  A value of type \<^verbatim>\<open>string | undefined\<close> is a \<^typ>\<open>string option\<close>; \<^verbatim>\<open>!value\<close>
  holds for \<^verbatim>\<open>undefined\<close> and for the empty string.
\<close>

definition falsy :: "string option \<Rightarrow> bool" where
  "falsy v = (case v of None \<Rightarrow> True | Some s \<Rightarrow> s = [])"


section \<open>Rate limiter (middleware/ratelimit.ts)\<close>

text \<open>
  Times are the values of \<^verbatim>\<open>Date.now()\<close>: integer milliseconds since the epoch.
  The JavaScript numbers of the limiter stay far below $2^{53}$, so they are modelled
  as unbounded integers. The interface \<^verbatim>\<open>RateLimitState\<close> has two optional fields.
\<close>

record RateLimitState =
  requests :: int
  reset_at :: int
  blocked_until :: "int option"
  violations :: "int option"

record ConsumeResult =
  allowed :: bool
  remaining :: int
  result_reset_at :: int

type_synonym limits = "string \<rightharpoonup> RateLimitState"

text \<open>
  \<^verbatim>\<open>state.blocked_until && now < state.blocked_until\<close>: an absent field and the
  number 0 are both falsy.
\<close>

definition is_blocked :: "int \<Rightarrow> RateLimitState \<Rightarrow> bool" where
  "is_blocked now state =
     (case blocked_until state of None \<Rightarrow> False | Some b \<Rightarrow> b \<noteq> 0 \<and> now < b)"

text \<open>\<^verbatim>\<open>state.violations ?? 0\<close>\<close>

definition violations_or_0 :: "RateLimitState \<Rightarrow> int" where
  "violations_or_0 state = (case violations state of None \<Rightarrow> 0 | Some v \<Rightarrow> v)"

text \<open>
  The part of \<^verbatim>\<open>consumeInternal\<close> that runs when the key has a state: the lockout
  check, the window expiry, the increment under the limit, and the violation. The
  source mutates the state object held by the map; the model returns the new state.
\<close>

definition consumeState :: "int \<Rightarrow> int \<Rightarrow> RateLimitState \<Rightarrow> RateLimitState \<times> ConsumeResult" where
  "consumeState limit now state =
     (case (if is_blocked now state then blocked_until state else None) of
        Some b \<Rightarrow> (state, \<lparr>allowed = False, remaining = 0, result_reset_at = b\<rparr>)
      | None \<Rightarrow>
          if now > reset_at state then
            (state\<lparr>requests := 1, reset_at := now + 60000,
                   violations := Some (max 0 (violations_or_0 state - 1))\<rparr>,
             \<lparr>allowed = True, remaining = max 0 (limit - 1), result_reset_at = now + 60000\<rparr>)
          else if requests state < limit then
            (state\<lparr>requests := requests state + 1\<rparr>,
             \<lparr>allowed = True, remaining = max 0 (limit - (requests state + 1)),
              result_reset_at = reset_at state\<rparr>)
          else
            (let v = violations_or_0 state + 1;
                 blockMs = min (15 * 60 * 1000) (60000 * v)
             in (state\<lparr>violations := Some v, blocked_until := Some (now + blockMs)\<rparr>,
                 \<lparr>allowed = False, remaining = 0, result_reset_at = now + blockMs\<rparr>)))"

definition consumeInternal :: "int \<Rightarrow> int \<Rightarrow> limits \<Rightarrow> string \<Rightarrow> limits \<times> ConsumeResult" where
  "consumeInternal limit now m deviceId =
     (case m deviceId of
        None \<Rightarrow>
          (m(deviceId \<mapsto> \<lparr>requests = 1, reset_at = now + 60000,
                          blocked_until = None, violations = Some 0\<rparr>),
           \<lparr>allowed = True, remaining = max 0 (limit - 1), result_reset_at = now + 60000\<rparr>)
      | Some state \<Rightarrow>
          (let (state', r) = consumeState limit now state in (m(deviceId \<mapsto> state'), r)))"

definition isAllowed :: "int \<Rightarrow> int \<Rightarrow> limits \<Rightarrow> string \<Rightarrow> limits \<times> bool" where
  "isAllowed limit now m deviceId =
     (let (m', r) = consumeInternal limit now m deviceId in (m', allowed r))"

definition getRemainingRequests :: "int \<Rightarrow> int \<Rightarrow> limits \<Rightarrow> string \<Rightarrow> int" where
  "getRemainingRequests limit now m deviceId =
     (case m deviceId of
        None \<Rightarrow> limit
      | Some state \<Rightarrow>
          if now > reset_at state then limit
          else if is_blocked now state then 0
          else max 0 (limit - requests state))"

definition getResetTime :: "int \<Rightarrow> limits \<Rightarrow> string \<Rightarrow> int" where
  "getResetTime now m deviceId =
     (case m deviceId of
        None \<Rightarrow> now
      | Some state \<Rightarrow>
          (case blocked_until state of
             None \<Rightarrow> reset_at state
           | Some b \<Rightarrow> if b \<noteq> 0 \<and> b > reset_at state then b else reset_at state))"

text \<open>A run of the limiter: the calls \<^verbatim>\<open>consume(key)\<close> made at the given times, in order.\<close>

fun consume_calls :: "int \<Rightarrow> limits \<Rightarrow> (string \<times> int) list \<Rightarrow> limits \<times> ConsumeResult list" where
  "consume_calls limit m [] = (m, [])"
| "consume_calls limit m ((k, t) # cs) =
     (let (m', r) = consumeInternal limit t m k;
          (m'', rs) = consume_calls limit m' cs
      in (m'', r # rs))"

text \<open>
  The lockouts of a run: for each call that was denied although the key was not locked
  out when the call arrived (the call that starts a lockout), the length of the
  lockout it starts, in milliseconds.
\<close>

fun lockout_durations :: "int \<Rightarrow> limits \<Rightarrow> (string \<times> int) list \<Rightarrow> int list" where
  "lockout_durations limit m [] = []"
| "lockout_durations limit m ((k, t) # cs) =
     (let (m', r) = consumeInternal limit t m k;
          was_blocked = (case m k of None \<Rightarrow> False | Some state \<Rightarrow> is_blocked t state)
      in (if \<not> allowed r \<and> \<not> was_blocked then [result_reset_at r - t] else [])
         @ lockout_durations limit m' cs)"

text \<open>
  The property a list of successive lockout lengths would have if each were strictly
  longer than the one before, up to the cap of 15 minutes.
\<close>

fun escalating :: "int list \<Rightarrow> bool" where
  "escalating (d1 # d2 # ds) = ((d1 < d2 \<or> d2 = 15 * 60 * 1000) \<and> escalating (d2 # ds))"
| "escalating ds = True"

text \<open>
  One device: 60 requests at time 0 and a 61st one second later (the first violation),
  then, once that lockout is over, 60 requests at 61 s and a 61st at 61.001 s (the
  second violation).
\<close>

definition violation_trace :: "(string \<times> int) list" where
  "violation_trace =
     replicate 60 (''dev'', 0) @ [(''dev'', 1000)] @ replicate 60 (''dev'', 61000) @ [(''dev'', 61001)]"

text \<open>
  Sustained abuse by one device: in each round 60 requests at the start of the round and
  a 61st one second later, which is denied and locks the key for the rest of the round;
  the next round starts when that lockout ends, 61 seconds after the start of this one.
\<close>

fun abuse_rounds :: "nat \<Rightarrow> int \<Rightarrow> (string \<times> int) list" where
  "abuse_rounds 0 start = []"
| "abuse_rounds (Suc n) start =
     replicate 60 (''dev'', start) @ [(''dev'', start + 1000)] @ abuse_rounds n (start + 61000)"

text \<open>
  What holds of every key's state when calls arrive in the order of their times, \<open>t\<close>
  being the time of the latest call: the violation count is 0, 1 or 2, the window ends
  at most 60 s after \<open>t\<close>, and at count 2 the key is locked until after its window.
\<close>

definition escalation_stalled :: "int \<Rightarrow> RateLimitState \<Rightarrow> bool" where
  "escalation_stalled t st =
     (0 \<le> violations_or_0 st \<and> violations_or_0 st \<le> 2 \<and> reset_at st \<le> t + 60000 \<and>
      (violations_or_0 st = 2 \<longrightarrow>
         (case blocked_until st of None \<Rightarrow> False | Some b \<Rightarrow> b \<noteq> 0 \<and> reset_at st < b)))"

definition all_stalled :: "int \<Rightarrow> limits \<Rightarrow> bool" where
  "all_stalled t m = (\<forall>k st. m k = Some st \<longrightarrow> escalation_stalled t st)"

text \<open>The invariant of the states the limiter creates.\<close>

definition state_ok :: "int \<Rightarrow> RateLimitState \<Rightarrow> bool" where
  "state_ok limit st = (requests st \<le> limit \<and> 0 \<le> violations_or_0 st)"

subsection \<open>The state machine of the specification\<close>

text \<open>
  The per-key state machine as the specification words it (section 4.4), on the
  specification's own state \<open>{window_count, window_reset_at, locked_until?,
  violation_count}\<close>. The specification fixes the admit/deny decision of every
  transition, and the reported remaining count and reset time of the locked one.
\<close>

record SpecState =
  window_count :: int
  window_reset_at :: int
  locked_until :: "int option"
  violation_count :: int

record SpecResult =
  admit :: bool
  reported :: "(int \<times> int) option"

definition spec_locked :: "int \<Rightarrow> SpecState \<Rightarrow> int option" where
  "spec_locked now s =
     (case locked_until s of None \<Rightarrow> None | Some u \<Rightarrow> if now < u then Some u else None)"

definition spec_consume :: "int \<Rightarrow> int \<Rightarrow> SpecState option \<Rightarrow> SpecState \<times> SpecResult" where
  "spec_consume limit now so =
     (case so of
        None \<Rightarrow>
          (\<lparr>window_count = 1, window_reset_at = now + 60000, locked_until = None,
            violation_count = 0\<rparr>, \<lparr>admit = True, reported = None\<rparr>)
      | Some s \<Rightarrow>
          (case spec_locked now s of
             Some u \<Rightarrow> (s, \<lparr>admit = False, reported = Some (0, u)\<rparr>)
           | None \<Rightarrow>
               if now > window_reset_at s then
                 (s\<lparr>window_count := 1, window_reset_at := now + 60000,
                    violation_count := max 0 (violation_count s - 1)\<rparr>,
                  \<lparr>admit = True, reported = None\<rparr>)
               else if window_count s < limit then
                 (s\<lparr>window_count := window_count s + 1\<rparr>, \<lparr>admit = True, reported = None\<rparr>)
               else
                 (s\<lparr>violation_count := violation_count s + 1,
                    locked_until :=
                      Some (now + min (15 * 60 * 1000) (60000 * (violation_count s + 1)))\<rparr>,
                  \<lparr>admit = False, reported = None\<rparr>)))"

fun spec_calls :: "int \<Rightarrow> (string \<rightharpoonup> SpecState) \<Rightarrow> (string \<times> int) list \<Rightarrow> (string \<rightharpoonup> SpecState) \<times> SpecResult list" where
  "spec_calls limit m [] = (m, [])"
| "spec_calls limit m ((k, t) # cs) =
     (let (s', a) = spec_consume limit t (m k);
          (m'', as) = spec_calls limit (m(k \<mapsto> s')) cs
      in (m'', a # as))"

definition abs_state :: "RateLimitState \<Rightarrow> SpecState" where
  "abs_state st = \<lparr>window_count = requests st, window_reset_at = reset_at st,
     locked_until = blocked_until st, violation_count = violations_or_0 st\<rparr>"

definition abs_limits :: "limits \<Rightarrow> (string \<rightharpoonup> SpecState)" where
  "abs_limits m = (\<lambda>k. map_option abs_state (m k))"

definition result_matches :: "ConsumeResult \<Rightarrow> SpecResult \<Rightarrow> bool" where
  "result_matches r sr =
     (allowed r = admit sr \<and>
      (case reported sr of None \<Rightarrow> True
       | Some (rem, rst) \<Rightarrow> remaining r = rem \<and> result_reset_at r = rst))"


section \<open>Input validation (utils/validation.ts)\<close>

definition MAX_OWNER_REPO_LENGTH :: nat where "MAX_OWNER_REPO_LENGTH = 100"
definition MAX_VERSION_LENGTH :: nat where "MAX_VERSION_LENGTH = 200"
definition MAX_ASSET_LENGTH :: nat where "MAX_ASSET_LENGTH = 200"
definition MAX_HEADER_LENGTH :: nat where "MAX_HEADER_LENGTH = 2048"

text \<open>\<^verbatim>\<open>OWNER_REPO_PATTERN = /^[A-Za-z0-9_-]+$/\<close>\<close>

definition OWNER_REPO_PATTERN :: "string \<Rightarrow> bool" where
  "OWNER_REPO_PATTERN s = all_in_class (\<lambda>c. is_alnum c \<or> c \<in> set ''_-'') s"

text \<open>\<^verbatim>\<open>TAG_PATTERN = /^[A-Za-z0-9._-]+$/\<close>\<close>

definition TAG_PATTERN :: "string \<Rightarrow> bool" where
  "TAG_PATTERN s = all_in_class (\<lambda>c. is_alnum c \<or> c \<in> set ''._-'') s"

text \<open>\<^verbatim>\<open>ASSET_PATTERN = /^[A-Za-z0-9._+() -]+$/\<close>\<close>

definition ASSET_PATTERN :: "string \<Rightarrow> bool" where
  "ASSET_PATTERN s = all_in_class (\<lambda>c. is_alnum c \<or> c \<in> set ''._+() -'') s"

text \<open>
  \<^verbatim>\<open>SEMVER_PATTERN\<close>: an optional \<^verbatim>\<open>v\<close>, three numbers without leading zeros
  separated by dots, an optional pre-release part after \<^verbatim>\<open>-\<close> and an optional build
  part after \<^verbatim>\<open>+\<close>, each a dot-separated list of non-empty identifiers over
  \<^verbatim>\<open>[0-9A-Za-z-]\<close>. The expression is anchored and none of its classes contains
  \<^verbatim>\<open>.\<close> or \<^verbatim>\<open>+\<close>, so a match splits the string in one way only.
\<close>

definition semver_number :: "string \<Rightarrow> bool" where
  "semver_number s =
     (s = ''0'' \<or> (case s of [] \<Rightarrow> False | c # cs \<Rightarrow> is_digit c \<and> c \<noteq> CHR ''0'' \<and> list_all is_digit cs))"

definition semver_idents :: "string \<Rightarrow> bool" where
  "semver_idents s =
     list_all (all_in_class (\<lambda>c. is_alnum c \<or> c = CHR ''-'')) (split_char (CHR ''.'') s)"

definition semver_core :: "string \<Rightarrow> bool" where
  "semver_core s =
     (case split_char (CHR ''.'') s of
        [a, b, c] \<Rightarrow> semver_number a \<and> semver_number b \<and> semver_number c
      | _ \<Rightarrow> False)"

definition SEMVER_PATTERN :: "string \<Rightarrow> bool" where
  "SEMVER_PATTERN s =
     (let s1 = (case s of c # cs \<Rightarrow> if c = CHR ''v'' then cs else s | [] \<Rightarrow> s);
          main = takeWhile (\<lambda>c. c \<noteq> CHR ''+'') s1;
          build = dropWhile (\<lambda>c. c \<noteq> CHR ''+'') s1;
          core = takeWhile (\<lambda>c. c \<noteq> CHR ''-'') main;
          pre = dropWhile (\<lambda>c. c \<noteq> CHR ''-'') main
      in semver_core core \<and>
         (pre = [] \<or> semver_idents (tl pre)) \<and>
         (build = [] \<or> semver_idents (tl build)))"

definition validateOwnerRepo :: "string \<Rightarrow> string option" where
  "validateOwnerRepo v =
     (let trimmed = trim v
      in if length trimmed = 0 \<or> length trimmed > MAX_OWNER_REPO_LENGTH then None
         else if \<not> OWNER_REPO_PATTERN trimmed then None
         else Some trimmed)"

definition validateVersion :: "string \<Rightarrow> string option" where
  "validateVersion v =
     (let trimmed = trim v
      in if length trimmed = 0 \<or> length trimmed > MAX_VERSION_LENGTH then None
         else if SEMVER_PATTERN trimmed \<or> TAG_PATTERN trimmed then Some trimmed
         else None)"

definition validateAssetName :: "string \<Rightarrow> string option" where
  "validateAssetName v =
     (let trimmed = trim v
      in if length trimmed = 0 \<or> length trimmed > MAX_ASSET_LENGTH then None
         else if includes_str trimmed ''/'' \<or> includes_str trimmed [CHR 0x5C] \<or> includes_str trimmed ''..''
         then None
         else if \<not> ASSET_PATTERN trimmed then None
         else Some trimmed)"

definition validateHeaderValue :: "string option \<Rightarrow> nat \<Rightarrow> string option" where
  "validateHeaderValue v maxLength =
     (case v of
        None \<Rightarrow> None
      | Some s \<Rightarrow>
          if s = [] then None
          else (let trimmed = trim s
                in if length trimmed = 0 \<or> length trimmed > maxLength then None
                   else if list_ex (\<lambda>c. c \<in> {CHR 0x0D, CHR 0x0A, CHR 0x00}) trimmed then None
                   else Some trimmed))"




definition validateDeviceId :: "string option \<Rightarrow> string option" where
  "validateDeviceId v =
     (case v of
        None \<Rightarrow> None
      | Some s \<Rightarrow>
          if s = [] then None
          else (let trimmed = trim s
                in if length trimmed = 0 \<or> length trimmed > MAX_OWNER_REPO_LENGTH then None
                   else if \<not> all_in_class (\<lambda>c. is_alnum c \<or> c \<in> set ''._-'') trimmed then None
                   else Some trimmed))"

text \<open>
  \<^verbatim>\<open>isIP\<close> of \<^verbatim>\<open>node:net\<close> is a parameter: whether the string is an IPv4 or an
  IPv6 address (the source only tests its result for truth).
\<close>

definition parseForwardedFor :: "(string \<Rightarrow> bool) \<Rightarrow> string option \<Rightarrow> string" where
  "parseForwardedFor isIP v =
     (case v of
        None \<Rightarrow> ''0.0.0.0''
      | Some s \<Rightarrow>
          if s = [] then ''0.0.0.0''
          else (let first = trim (first_piece (split_char (CHR '','') s))
                in if first = [] then ''0.0.0.0''
                   else if isIP first then first
                   else (let inner =
                               (if startsWith first ''['' then
                                  (case indexOf first (CHR '']'') of
                                     None \<Rightarrow> None
                                   | Some i \<Rightarrow> Some (take (i - 1) (drop 1 first)))
                                else None);
                             ipv4Port = first_piece (split_char (CHR '':'') first)
                         in (case (if (case inner of None \<Rightarrow> False | Some x \<Rightarrow> isIP x)
                                   then inner else None) of
                               Some x \<Rightarrow> x
                             | None \<Rightarrow> if isIP ipv4Port then ipv4Port else ''0.0.0.0''))))"


text \<open>
  A \<^verbatim>\<open>Record<string, string>\<close> of headers is an association list with one entry
  per name. \<^verbatim>\<open>getHeader\<close> looks the lower-cased name up, then the first entry whose
  lower-cased name is equal to it.
\<close>

type_synonym headers = "(string \<times> string) list"


text \<open>
  \<^verbatim>\<open>collectValidatedHeaders\<close>: the request's headers in the order of
  \<^verbatim>\<open>Headers.forEach\<close>; every value that passes \<^verbatim>\<open>validateHeaderValue\<close> is stored
  under the lower-cased name, a later one replacing an earlier one.
\<close>

fun collectValidatedHeaders_from :: "headers \<Rightarrow> headers \<Rightarrow> headers" where
  "collectValidatedHeaders_from result [] = result"
| "collectValidatedHeaders_from result ((name, v) # rest) =
     (case validateHeaderValue (Some v) MAX_HEADER_LENGTH of
        None \<Rightarrow> collectValidatedHeaders_from result rest
      | Some safeValue \<Rightarrow>
          collectValidatedHeaders_from (AList.update (toLowerCase name) safeValue result) rest)"

definition collectValidatedHeaders :: "headers \<Rightarrow> headers" where
  "collectValidatedHeaders hs = collectValidatedHeaders_from [] hs"


section \<open>POSIX paths (node:path)\<close>

text \<open>
  The functions of \<^verbatim>\<open>node:path\<close> that the source calls, on a POSIX system, where
  the separator is \<^verbatim>\<open>/\<close>. They are library code: the model follows their documented
  behaviour segment by segment. The current working directory, which \<^verbatim>\<open>resolve\<close>
  and \<^verbatim>\<open>relative\<close> read from the process, is the parameter \<open>cwd\<close>.
\<close>

definition sep :: string where
  "sep = ''/''"

definition isAbsolute :: "string \<Rightarrow> bool" where
  "isAbsolute p = (case p of [] \<Rightarrow> False | c # _ \<Rightarrow> c = CHR ''/'')"

text \<open>
  The segments of a path are normalised from left to right: an empty segment and
  \<^verbatim>\<open>.\<close> are dropped; \<^verbatim>\<open>..\<close> removes the segment before it, and where there is none
  to remove it is kept if the path may rise above its start and dropped otherwise.
\<close>

fun norm_segs :: "bool \<Rightarrow> string list \<Rightarrow> string list \<Rightarrow> string list" where
  "norm_segs up res [] = res"
| "norm_segs up res (s # ss) =
     (if s = [] \<or> s = ''.'' then norm_segs up res ss
      else if s = ''..'' then
        (if res \<noteq> [] \<and> last res \<noteq> ''..'' then norm_segs up (butlast res) ss
         else if up then norm_segs up (res @ [''..'']) ss
         else norm_segs up res ss)
      else norm_segs up (res @ [s]) ss)"

definition normalizeString :: "string \<Rightarrow> bool \<Rightarrow> string" where
  "normalizeString path allowAboveRoot =
     join ''/'' (norm_segs allowAboveRoot [] (split_char (CHR ''/'') path))"

definition normalize :: "string \<Rightarrow> string" where
  "normalize path =
     (if path = [] then ''.''
      else (let isAbs = isAbsolute path;
                trailingSeparator = (last path = CHR ''/'');
                p = normalizeString path (\<not> isAbs)
            in if p = [] then (if isAbs then ''/'' else if trailingSeparator then ''./'' else ''.'')
               else (let p' = (if trailingSeparator then p @ ''/'' else p)
                     in if isAbs then ''/'' @ p' else p')))"

text \<open>
  \<^verbatim>\<open>resolve(...args)\<close> goes through its arguments from the right, and then the
  working directory, until it has an absolute path.
\<close>

fun resolve_loop :: "string list \<Rightarrow> string \<Rightarrow> string \<times> bool" where
  "resolve_loop [] resolvedPath = (resolvedPath, False)"
| "resolve_loop (path # paths) resolvedPath =
     (if path = [] then resolve_loop paths resolvedPath
      else if isAbsolute path then (path @ ''/'' @ resolvedPath, True)
      else resolve_loop paths (path @ ''/'' @ resolvedPath))"

definition resolve :: "string \<Rightarrow> string list \<Rightarrow> string" where
  "resolve cwd args =
     (let (resolvedPath, resolvedAbsolute) = resolve_loop (rev args @ [cwd]) [];
          p = normalizeString resolvedPath (\<not> resolvedAbsolute)
      in if resolvedAbsolute then ''/'' @ p else if p \<noteq> [] then p else ''.'')"

text \<open>
  \<^verbatim>\<open>relative(from, to)\<close>: both paths are resolved, their common leading segments are
  dropped, and the result climbs with one \<^verbatim>\<open>..\<close> for each segment left of
  \<^verbatim>\<open>from\<close> before it descends along what is left of \<^verbatim>\<open>to\<close>.
\<close>

definition path_segments :: "string \<Rightarrow> string list" where
  "path_segments p = filter (\<lambda>s. s \<noteq> []) (split_char (CHR ''/'') p)"

fun drop_common :: "string list \<Rightarrow> string list \<Rightarrow> string list \<times> string list" where
  "drop_common (a # as) (b # bs) = (if a = b then drop_common as bs else (a # as, b # bs))"
| "drop_common as bs = (as, bs)"

definition relative :: "string \<Rightarrow> string \<Rightarrow> string \<Rightarrow> string" where
  "relative cwd from to =
     (if from = to then []
      else (let from' = resolve cwd [from]; to' = resolve cwd [to]
            in if from' = to' then []
               else (let (fs, ts) = drop_common (path_segments from') (path_segments to')
                     in join ''/'' (replicate (length fs) ''..'' @ ts))))"

section \<open>Path safety (utils/validation.ts)\<close>

text \<open>
  \<^verbatim>\<open>trimmed.split(/[\\/]+/).filter(Boolean)\<close>: the non-empty pieces between runs of
  slashes and backslashes, which are the non-empty pieces between single ones.
\<close>

definition rawSegments :: "string \<Rightarrow> string list" where
  "rawSegments trimmed =
     filter (\<lambda>s. s \<noteq> []) (split_where (\<lambda>c. c = CHR 0x5C \<or> c = CHR ''/'') trimmed)"

definition resolveSafePath :: "string \<Rightarrow> string \<Rightarrow> string \<Rightarrow> string option" where
  "resolveSafePath cwd baseDir inputPath =
     (let trimmed = trim inputPath
      in if length trimmed = 0 \<or> length trimmed > 4096 then None
         else if CHR 0x00 \<in> set trimmed then None
         else if ''..'' \<in> set (rawSegments trimmed) then None
         else (let resolved = (if isAbsolute trimmed then normalize trimmed
                               else resolve cwd [baseDir, trimmed])
               in if \<not> isAbsolute resolved then None
                  else if \<not> isAbsolute trimmed \<and>
                          (let rel = relative cwd baseDir resolved
                           in rel = ''..'' \<or> startsWith rel (''..'' @ sep))
                  then None
                  else Some resolved))"

text \<open>The segments of a relative input that count: neither empty nor \<^verbatim>\<open>.\<close>.\<close>

definition plain_segments :: "string \<Rightarrow> string list" where
  "plain_segments p = filter (\<lambda>s. s \<noteq> [] \<and> s \<noteq> ''.'') (split_char (CHR ''/'') p)"

text \<open>The normalised segments of an absolute base directory.\<close>

definition base_segments :: "string \<Rightarrow> string list" where
  "base_segments baseDir = norm_segs False [] (split_char (CHR ''/'') baseDir)"


section \<open>Base64 (Buffer)\<close>

text \<open>
  A \<^verbatim>\<open>Buffer\<close> is a list of bytes, written as a \<^typ>\<open>string\<close>.
  \<^verbatim>\<open>buf.toString("base64")\<close> is the standard padded encoding over the alphabet
  A to Z, a to z, 0 to 9, \<^verbatim>\<open>+\<close> and \<^verbatim>\<open>/\<close>.
  \<^verbatim>\<open>Buffer.from(s, "base64")\<close> is modelled on such encodings: the runtime's
  decoder also accepts unpadded and URL-safe text, which the cache never writes.
\<close>

definition b64_char :: "nat \<Rightarrow> char" where
  "b64_char n =
     (let m = n mod 64
      in if m < 26 then char_of (m + 65)
         else if m < 52 then char_of (m + 71)
         else if m < 62 then char_of (m - 4)
         else if m = 62 then CHR ''+''
         else CHR ''/'')"

definition b64_value :: "char \<Rightarrow> nat option" where
  "b64_value c =
     (let n = of_char c :: nat
      in if 65 \<le> n \<and> n \<le> 90 then Some (n - 65)
         else if 97 \<le> n \<and> n \<le> 122 then Some (n - 71)
         else if 48 \<le> n \<and> n \<le> 57 then Some (n + 4)
         else if c = CHR ''+'' then Some 62
         else if c = CHR ''/'' then Some 63
         else None)"

fun to_base64 :: "string \<Rightarrow> string" where
  "to_base64 [] = []"
| "to_base64 [a] =
     (let x = of_char a :: nat
      in [b64_char (x div 4), b64_char ((x mod 4) * 16), CHR ''='', CHR ''=''])"
| "to_base64 [a, b] =
     (let x = of_char a :: nat; y = of_char b :: nat
      in [b64_char (x div 4), b64_char ((x mod 4) * 16 + y div 16),
          b64_char ((y mod 16) * 4), CHR ''=''])"
| "to_base64 (a # b # c # rest) =
     (let x = of_char a :: nat; y = of_char b :: nat; z = of_char c :: nat
      in [b64_char (x div 4), b64_char ((x mod 4) * 16 + y div 16),
          b64_char ((y mod 16) * 4 + z div 64), b64_char (z mod 64)] @ to_base64 rest)"

fun from_base64 :: "string \<Rightarrow> string" where
  "from_base64 (w # x # y # z # rest) =
     (case (b64_value w, b64_value x) of
        (Some p, Some q) \<Rightarrow>
          (case b64_value y of
             None \<Rightarrow> [char_of (p * 4 + q div 16)]
           | Some r \<Rightarrow>
               (case b64_value z of
                  None \<Rightarrow> [char_of (p * 4 + q div 16), char_of ((q mod 16) * 16 + r div 4)]
                | Some s \<Rightarrow>
                    [char_of (p * 4 + q div 16), char_of ((q mod 16) * 16 + r div 4),
                     char_of ((r mod 4) * 64 + s)] @ from_base64 rest))
      | _ \<Rightarrow> [])"
| "from_base64 s = []"

section \<open>Cache manager (github/cache.ts)\<close>

text \<open>
  The cache directory is a map from paths to file contents. A cache file holds the JSON
  text of a \<^verbatim>\<open>CacheEntry\<close>, which \<^verbatim>\<open>JSON.parse\<close> gives back as it was written, or
  text on which reading or parsing throws (\<^verbatim>\<open>clear\<close> writes the empty string).
  \<^verbatim>\<open>createHash("sha256").update(x).digest("hex")\<close> is the parameter \<open>sha256hex\<close>;
  whether \<^verbatim>\<open>writeFileSync\<close> succeeds is the parameter \<open>write_ok\<close>.
\<close>

record CacheEntry =
  data :: string
  checksum :: string
  timestamp :: int
  ttl :: int

datatype file_content = Entry CacheEntry | Unparsable

type_synonym filesystem = "string \<rightharpoonup> file_content"

record CacheManager =
  cacheDir :: string
  manager_ttl :: int

definition getCachePath :: "(string \<Rightarrow> string) \<Rightarrow> string \<Rightarrow> CacheManager \<Rightarrow> string \<Rightarrow> string" where
  "getCachePath sha256hex cwd cm key = resolve cwd [cacheDir cm, sha256hex key @ ''.cache'']"

definition cache_get ::
  "(string \<Rightarrow> string) \<Rightarrow> string \<Rightarrow> int \<Rightarrow> filesystem \<Rightarrow> CacheManager \<Rightarrow> string \<Rightarrow> string option" where
  "cache_get sha256hex cwd now fs cm key =
     (case fs (getCachePath sha256hex cwd cm key) of
        None \<Rightarrow> None
      | Some Unparsable \<Rightarrow> None
      | Some (Entry entry) \<Rightarrow>
          if now - timestamp entry > ttl entry * 1000 then None
          else Some (from_base64 (data entry)))"

definition cache_set ::
  "(string \<Rightarrow> string) \<Rightarrow> string \<Rightarrow> int \<Rightarrow> bool \<Rightarrow> filesystem \<Rightarrow> CacheManager \<Rightarrow> string \<Rightarrow> string
     \<Rightarrow> filesystem" where
  "cache_set sha256hex cwd now write_ok fs cm key buf =
     (let path = getCachePath sha256hex cwd cm key;
          entry = \<lparr>data = to_base64 buf, checksum = sha256hex buf, timestamp = now,
                   ttl = manager_ttl cm\<rparr>
      in if write_ok then fs(path \<mapsto> Entry entry) else fs)"

definition getChecksum ::
  "(string \<Rightarrow> string) \<Rightarrow> string \<Rightarrow> int \<Rightarrow> filesystem \<Rightarrow> CacheManager \<Rightarrow> string \<Rightarrow> string option" where
  "getChecksum sha256hex cwd now fs cm key =
     (case fs (getCachePath sha256hex cwd cm key) of
        None \<Rightarrow> None
      | Some Unparsable \<Rightarrow> None
      | Some (Entry entry) \<Rightarrow>
          if now - timestamp entry > ttl entry * 1000 then None
          else Some (checksum entry))"

definition cache_clear ::
  "(string \<Rightarrow> string) \<Rightarrow> string \<Rightarrow> bool \<Rightarrow> filesystem \<Rightarrow> CacheManager \<Rightarrow> string \<Rightarrow> filesystem" where
  "cache_clear sha256hex cwd write_ok fs cm key =
     (let path = getCachePath sha256hex cwd cm key
      in if fs path \<noteq> None \<and> write_ok then fs(path \<mapsto> Unparsable) else fs)"

text \<open>A history of the cache directory: the writes made through the manager, in order.\<close>

datatype cache_op = SetOp string string int bool | ClearOp string bool

fun run_cache ::
  "(string \<Rightarrow> string) \<Rightarrow> string \<Rightarrow> CacheManager \<Rightarrow> filesystem \<Rightarrow> cache_op list \<Rightarrow> filesystem" where
  "run_cache sha256hex cwd cm fs [] = fs"
| "run_cache sha256hex cwd cm fs (SetOp key buf now write_ok # ops) =
     run_cache sha256hex cwd cm (cache_set sha256hex cwd now write_ok fs cm key buf) ops"
| "run_cache sha256hex cwd cm fs (ClearOp key write_ok # ops) =
     run_cache sha256hex cwd cm (cache_clear sha256hex cwd write_ok fs cm key) ops"

text \<open>Every entry in the directory carries the digest of the bytes it decodes to.\<close>

definition checksums_ok :: "(string \<Rightarrow> string) \<Rightarrow> filesystem \<Rightarrow> bool" where
  "checksums_ok sha256hex fs =
     (\<forall>path entry. fs path = Some (Entry entry) \<longrightarrow>
        checksum entry = sha256hex (from_base64 (data entry)))"


section \<open>Shared types (types.ts, utils/errors.ts)\<close>

text \<open>
  JSON values, for the bodies of upstream responses and for configuration objects of
  type \<^verbatim>\<open>Record<string, unknown>\<close>. An object is a list of its members, one for each name.
\<close>

datatype json = JNull | JBool bool | JNum int | JStr string | JArr "json list" | JObj "(string \<times> json) list"

text \<open>
  \<^verbatim>\<open>device_name\<close> is declared a string, but the Tailscale adapter stores whatever the
  device directory sent under \<^verbatim>\<open>name\<close>: the field holds a JSON value.
\<close>

record DeviceContext =
  device_id :: string
  device_name :: "json option"
  user_id :: "string option"
  auth_method :: string
  ip_address :: string
  verified_at :: int

record ReleaseAsset =
  asset_id :: int
  asset_name :: string
  asset_url :: string
  browser_download_url :: string
  asset_size :: int
  download_count :: int
  asset_created_at :: string
  asset_updated_at :: string

record Release =
  release_id :: int
  tag_name :: string
  release_name :: string
  draft :: bool
  prerelease :: bool
  created_at :: string
  published_at :: string
  assets :: "ReleaseAsset list"

datatype audit_status = Success | Failure

text \<open>
  The \<^verbatim>\<open>details\<close> that the routes pass to the audit logger: \<^verbatim>\<open>{ reason: ... }\<close> or
  \<^verbatim>\<open>{ cached: true }\<close>.
\<close>

datatype audit_details = Reason string | Cached

record AuditLog =
  log_timestamp :: int
  log_device_id :: string
  log_action :: string
  log_resource :: string
  log_status :: audit_status
  log_details :: "audit_details option"

text \<open>
  What a handler can throw: an \<^verbatim>\<open>AppError\<close> with its message and status, or any
  other error.
\<close>

datatype thrown = AppError string nat | OtherError

definition ValidationError :: "string \<Rightarrow> thrown" where
  "ValidationError message = AppError message 400"

definition ExternalServiceError :: "string \<Rightarrow> thrown" where
  "ExternalServiceError message = AppError message 502"

definition RateLimitError :: "string \<Rightarrow> thrown" where
  "RateLimitError message = AppError message 429"

section \<open>Audit logger (audit/logger.ts)\<close>

text \<open>
  \<^verbatim>\<open>logAction\<close> builds the record and hands it to \<^verbatim>\<open>log\<close>, which appends it to
  the log file when a file is configured and the write succeeds. A handler's audit
  records are the records it hands to the logger, in order.
\<close>

definition logAction ::
  "int \<Rightarrow> string \<Rightarrow> string \<Rightarrow> string \<Rightarrow> audit_status \<Rightarrow> audit_details option \<Rightarrow> AuditLog" where
  "logAction now deviceId action resource st details =
     \<lparr>log_timestamp = now, log_device_id = deviceId, log_action = action,
      log_resource = resource, log_status = st, log_details = details\<rparr>"

definition audit_log :: "string option \<Rightarrow> bool \<Rightarrow> AuditLog list \<Rightarrow> AuditLog \<Rightarrow> AuditLog list" where
  "audit_log logFile write_ok file_lines entry =
     (if logFile = None \<or> logFile = Some [] then file_lines
      else if write_ok then file_lines @ [entry] else file_lines)"

section \<open>Server (server.ts)\<close>

text \<open>
  The responses: a status, the headers that the handler sets, and a body. A JSON body
  is an error object, the list of releases, or the value parsed from the cached text.
\<close>

datatype header_value = HStr string | HNum int

datatype body = JsonError string | JsonReleases "Release list" | JsonParsed string | Bytes string

record Response =
  status :: nat
  resp_headers :: "(string \<times> header_value) list"
  resp_body :: body

text \<open>
  The result of awaiting \<^verbatim>\<open>authenticateDevice\<close>: it throws, or returns a device or
  \<^verbatim>\<open>null\<close>.
\<close>

datatype auth_result = Threw thrown | Returned "DeviceContext option"

text \<open>
  What \<^verbatim>\<open>createServer\<close> closes over, and the collaborators of a request. The
  dispatcher \<^verbatim>\<open>authenticateDevice\<close> of \<^verbatim>\<open>./auth\<close>, called with the configured
  method and its configuration, is the field \<open>authenticate\<close>; the GitHub client is
  the three fields after it (each catches its own errors); \<^verbatim>\<open>JSON.stringify\<close> of the
  releases and whether \<^verbatim>\<open>JSON.parse\<close> accepts a text are fields too. \<open>signer\<close> is
  \<^verbatim>\<open>assetSigner\<close>: absent, or a function that signs or throws.
\<close>

record Server =
  authenticate :: "headers \<Rightarrow> auth_result"
  listReleases :: "string \<Rightarrow> string \<Rightarrow> Release list"
  getRelease :: "string \<Rightarrow> string \<Rightarrow> string \<Rightarrow> Release option"
  downloadAsset :: "string \<Rightarrow> string \<Rightarrow> int \<Rightarrow> string option"
  signer :: "(string \<Rightarrow> string option) option"
  json_stringify :: "Release list \<Rightarrow> string"
  json_parses :: "string \<Rightarrow> bool"
  is_ip :: "string \<Rightarrow> bool"
  sha256 :: "string \<Rightarrow> string"
  working_dir :: string
  cacheManager :: CacheManager
  cache_write_ok :: bool

text \<open>The readings of \<^verbatim>\<open>Date.now()\<close> during one request, one field for each call.\<close>

record Clock =
  t_consume :: int
  t_remaining :: int
  t_reset :: int
  t_cache_get :: int
  t_checksum :: int
  t_cache_set :: int
  t_audit :: int

record ServerState =
  limiter :: limits
  files :: filesystem

definition rateLimitLimit :: int where
  "rateLimitLimit = 60"

text \<open>\<^verbatim>\<open>app.onError\<close>\<close>

definition onError :: "(string \<times> header_value) list \<Rightarrow> thrown \<Rightarrow> Response" where
  "onError hs err =
     (case err of
        AppError message st \<Rightarrow> \<lparr>status = st, resp_headers = hs, resp_body = JsonError message\<rparr>
      | OtherError \<Rightarrow>
          \<lparr>status = 500, resp_headers = hs, resp_body = JsonError ''Internal server error''\<rparr>)"

definition applyRateLimitHeaders :: "int \<Rightarrow> int \<Rightarrow> int \<Rightarrow> (string \<times> header_value) list" where
  "applyRateLimitHeaders limit remaining_requests resetAt =
     [(''X-RateLimit-Limit'', HNum limit),
      (''X-RateLimit-Remaining'', HNum remaining_requests),
      (''X-RateLimit-Reset'', HNum (resetAt div 1000))]"

text \<open>
  The three limiter calls that both routes make for a key: \<^verbatim>\<open>isAllowed\<close>, which
  consumes, then the two projections for the headers.
\<close>

definition rate_limit :: "Clock \<Rightarrow> limits \<Rightarrow> string \<Rightarrow> limits \<times> bool \<times> (string \<times> header_value) list" where
  "rate_limit clk m key =
     (let (m', ok) = isAllowed rateLimitLimit (t_consume clk) m key;
          remaining_requests = getRemainingRequests rateLimitLimit (t_remaining clk) m' key;
          resetAt = getResetTime (t_reset clk) m' key
      in (m', ok, applyRateLimitHeaders rateLimitLimit remaining_requests resetAt))"

text \<open>
  The branch \<^verbatim>\<open>if (!device)\<close> of both routes: the anonymous key is consumed, and
  the answer is 429 when it is over its limit, else 401 with an audit record.
\<close>

definition unauthenticated ::
  "Server \<Rightarrow> Clock \<Rightarrow> headers \<Rightarrow> string \<Rightarrow> string \<Rightarrow> ServerState
     \<Rightarrow> Response \<times> AuditLog list \<times> ServerState" where
  "unauthenticated srv clk hs action resource st =
     (let anonKey = parseForwardedFor (is_ip srv) (map_of hs ''x-forwarded-for'');
          anonId = ''anon:'' @ anonKey;
          (m', anonAllowed, rl) = rate_limit clk (limiter st) anonId;
          st' = st\<lparr>limiter := m'\<rparr>
      in if \<not> anonAllowed then
           (\<lparr>status = 429, resp_headers = rl, resp_body = JsonError ''Rate limited''\<rparr>, [], st')
         else
           (\<lparr>status = 401, resp_headers = rl, resp_body = JsonError ''Unauthorized''\<rparr>,
            [logAction (t_audit clk) ''unknown'' action resource Failure None], st'))"

text \<open>\<^verbatim>\<open>GET /releases/:owner/:repo\<close>\<close>

definition releases_route ::
  "Server \<Rightarrow> Clock \<Rightarrow> string \<Rightarrow> string \<Rightarrow> headers \<Rightarrow> ServerState
     \<Rightarrow> Response \<times> AuditLog list \<times> ServerState" where
  "releases_route srv clk owner_param repo_param raw_headers st =
     (case (validateOwnerRepo owner_param, validateOwnerRepo repo_param) of
        (Some owner, Some repo) \<Rightarrow>
          (let hs = collectValidatedHeaders raw_headers;
               resource = owner @ ''/'' @ repo
           in case authenticate srv hs of
                Threw err \<Rightarrow> (onError [] err, [], st)
              | Returned None \<Rightarrow> unauthenticated srv clk hs ''list_releases'' resource st
              | Returned (Some device) \<Rightarrow>
                  (let (m', ok, rl) = rate_limit clk (limiter st) (device_id device);
                       st1 = st\<lparr>limiter := m'\<rparr>;
                       record_of = logAction (t_audit clk) (device_id device) ''list_releases'' resource
                   in if \<not> ok then
                        (onError rl (RateLimitError ''Rate limited''),
                         [record_of Failure (Some (Reason ''rate_limited''))], st1)
                      else
                        (let cacheKey = ''releases:'' @ owner @ '':'' @ repo
                         in case cache_get (sha256 srv) (working_dir srv) (t_cache_get clk)
                                   (files st1) (cacheManager srv) cacheKey of
                              Some cached \<Rightarrow>
                                (if json_parses srv cached
                                 then \<lparr>status = 200, resp_headers = rl, resp_body = JsonParsed cached\<rparr>
                                 else onError rl OtherError,
                                 [record_of Success (Some Cached)], st1)
                            | None \<Rightarrow>
                                (let releases = listReleases srv owner repo
                                 in if length releases = 0 then
                                      (\<lparr>status = 404, resp_headers = rl,
                                        resp_body = JsonError ''Repository not found''\<rparr>,
                                       [record_of Failure (Some (Reason ''not_found''))], st1)
                                    else
                                      (\<lparr>status = 200, resp_headers = rl,
                                        resp_body = JsonReleases releases\<rparr>,
                                       [record_of Success None],
                                       st1\<lparr>files :=
                                         cache_set (sha256 srv) (working_dir srv) (t_cache_set clk)
                                           (cache_write_ok srv) (files st1) (cacheManager srv) cacheKey
                                           (json_stringify srv releases)\<rparr>)))))
      | _ \<Rightarrow> (onError [] (ValidationError ''Invalid request''), [], st))"

text \<open>
  The signature header of the asset route: none without a signer; with one, the
  signature, or the error that \<^verbatim>\<open>sign\<close> throws.
\<close>

definition signature_header ::
  "Server \<Rightarrow> string \<Rightarrow> thrown + (string \<times> header_value) list" where
  "signature_header srv buf =
     (case signer srv of
        None \<Rightarrow> Inr []
      | Some sign \<Rightarrow>
          (case sign buf of
             None \<Rightarrow> Inl OtherError
           | Some signature \<Rightarrow> Inr [(''X-Signature-RSA-SHA256'', HStr signature)]))"

text \<open>\<^verbatim>\<open>GET /release/:owner/:repo/:version/:asset\<close>\<close>

definition release_route ::
  "Server \<Rightarrow> Clock \<Rightarrow> string \<Rightarrow> string \<Rightarrow> string \<Rightarrow> string \<Rightarrow> headers \<Rightarrow> ServerState
     \<Rightarrow> Response \<times> AuditLog list \<times> ServerState" where
  "release_route srv clk owner_param repo_param version_param asset_param raw_headers st =
     (case (validateOwnerRepo owner_param, validateOwnerRepo repo_param,
            validateVersion version_param, validateAssetName asset_param) of
        (Some owner, Some repo, Some version, Some assetName) \<Rightarrow>
          (let hs = collectValidatedHeaders raw_headers;
               resource = owner @ ''/'' @ repo @ ''/'' @ version @ ''/'' @ assetName
           in case authenticate srv hs of
                Threw err \<Rightarrow> (onError [] err, [], st)
              | Returned None \<Rightarrow> unauthenticated srv clk hs ''download_asset'' resource st
              | Returned (Some device) \<Rightarrow>
                  (let (m', ok, rl) = rate_limit clk (limiter st) (device_id device);
                       st1 = st\<lparr>limiter := m'\<rparr>;
                       record_of = logAction (t_audit clk) (device_id device) ''download_asset'' resource
                   in if \<not> ok then
                        (onError rl (RateLimitError ''Rate limited''),
                         [record_of Failure (Some (Reason ''rate_limited''))], st1)
                      else
                        (let cacheKey = ''asset:'' @ owner @ '':'' @ repo @ '':'' @ version @ '':'' @ assetName
                         in case cache_get (sha256 srv) (working_dir srv) (t_cache_get clk)
                                   (files st1) (cacheManager srv) cacheKey of
                              Some cached \<Rightarrow>
                                (let sum = (case getChecksum (sha256 srv) (working_dir srv)
                                                   (t_checksum clk) (files st1) (cacheManager srv) cacheKey of
                                              None \<Rightarrow> [] | Some c \<Rightarrow> c);
                                     hs1 = rl @ [(''X-Checksum-SHA256'', HStr sum)]
                                 in case signature_header srv cached of
                                      Inl err \<Rightarrow> (onError hs1 err, [], st1)
                                    | Inr sig \<Rightarrow>
                                        (\<lparr>status = 200,
                                          resp_headers = hs1 @ sig @
                                            [(''Content-Type'', HStr ''application/octet-stream'')],
                                          resp_body = Bytes cached\<rparr>,
                                         [record_of Success (Some Cached)], st1))
                            | None \<Rightarrow>
                                (case getRelease srv owner repo version of
                                   None \<Rightarrow>
                                     (\<lparr>status = 404, resp_headers = rl,
                                       resp_body = JsonError ''Release not found''\<rparr>,
                                      [record_of Failure (Some (Reason ''release_not_found''))], st1)
                                 | Some release \<Rightarrow>
                                     (case find (\<lambda>a. asset_name a = assetName) (assets release) of
                                        None \<Rightarrow>
                                          (\<lparr>status = 404, resp_headers = rl,
                                            resp_body = JsonError ''Asset not found''\<rparr>,
                                           [record_of Failure (Some (Reason ''asset_not_found''))], st1)
                                      | Some asset \<Rightarrow>
                                          (case downloadAsset srv owner repo (asset_id asset) of
                                             None \<Rightarrow>
                                               (onError rl (ExternalServiceError ''Request failed''),
                                                [record_of Failure (Some (Reason ''download_failed''))], st1)
                                           | Some buf \<Rightarrow>
                                               (let st2 = st1\<lparr>files :=
                                                      cache_set (sha256 srv) (working_dir srv)
                                                        (t_cache_set clk) (cache_write_ok srv) (files st1)
                                                        (cacheManager srv) cacheKey buf\<rparr>;
                                                    hs1 = rl @ [(''X-Checksum-SHA256'', HStr (sha256 srv buf))]
                                                in case signature_header srv buf of
                                                     Inl err \<Rightarrow> (onError hs1 err, [], st2)
                                                   | Inr sig \<Rightarrow>
                                                       (\<lparr>status = 200,
                                                         resp_headers = hs1 @ sig @
                                                           [(''Content-Type'', HStr ''application/octet-stream'')],
                                                         resp_body = Bytes buf\<rparr>,
                                                        [record_of Success None], st2))))))))
      | _ \<Rightarrow> (onError [] (ValidationError ''Invalid request''), [], st))"

text \<open>
  A server for examples: authentication finds no device, GitHub has one release of
  \<^verbatim>\<open>acme/tool\<close>, nothing is signed, and only \<^verbatim>\<open>10.0.0.1\<close> counts as an address.
\<close>

definition example_release :: Release where
  "example_release =
     \<lparr>release_id = 1, tag_name = ''v1.0.0'', release_name = ''first'', draft = False,
      prerelease = False, created_at = ''2024-01-01'', published_at = ''2024-01-02'',
      assets = [\<lparr>asset_id = 7, asset_name = ''tool.tar.gz'', asset_url = ''u'',
                 browser_download_url = ''d'', asset_size = 3, download_count = 0,
                 asset_created_at = ''2024-01-01'', asset_updated_at = ''2024-01-01''\<rparr>]\<rparr>"

definition example_server :: "DeviceContext option \<Rightarrow> Server" where
  "example_server device =
     \<lparr>authenticate = (\<lambda>hs. Returned device),
      listReleases = (\<lambda>owner repo. if owner = ''acme'' \<and> repo = ''tool'' then [example_release] else []),
      getRelease = (\<lambda>owner repo tag.
         if owner = ''acme'' \<and> repo = ''tool'' \<and> tag = ''v1.0.0'' then Some example_release else None),
      downloadAsset = (\<lambda>owner repo n. if n = 7 then Some ''abc'' else None),
      signer = None,
      json_stringify = (\<lambda>rs. ''[...]''),
      json_parses = (\<lambda>s. True),
      is_ip = (\<lambda>s. s = ''10.0.0.1''),
      sha256 = rev,
      working_dir = ''/srv/app'',
      cacheManager = \<lparr>cacheDir = ''cache'', manager_ttl = 3600\<rparr>,
      cache_write_ok = True\<rparr>"

definition example_device :: DeviceContext where
  "example_device =
     \<lparr>device_id = ''laptop-1'', device_name = None, user_id = None, auth_method = ''mtls'',
      ip_address = ''0.0.0.0'', verified_at = 1000\<rparr>"

definition example_clock :: Clock where
  "example_clock =
     \<lparr>t_consume = 1000, t_remaining = 1000, t_reset = 1000, t_cache_get = 1001,
      t_checksum = 1001, t_cache_set = 1002, t_audit = 1003\<rparr>"

definition empty_state :: ServerState where
  "empty_state = \<lparr>limiter = Map.empty, files = Map.empty\<rparr>"

text \<open>
  One audit record for a request: the device's identity (\<^verbatim>\<open>unknown\<close> without a
  device), the action, the resource, a status that is success for a 200 and failure for
  a 401, 404, 429 or 502, and on the failures of an authenticated device a reason code.
\<close>

definition audited_once ::
  "DeviceContext option \<Rightarrow> string \<Rightarrow> string \<Rightarrow> Response \<Rightarrow> AuditLog list \<Rightarrow> bool" where
  "audited_once device action resource resp recs =
     (case recs of
        [entry] \<Rightarrow>
          log_device_id entry = (case device of None \<Rightarrow> ''unknown'' | Some d \<Rightarrow> device_id d) \<and>
          log_action entry = action \<and>
          log_resource entry = resource \<and>
          (if status resp = 200 then log_status entry = Success
           else if status resp \<in> {401, 404, 429, 502} then
             log_status entry = Failure \<and>
             (case log_details entry of Some (Reason code) \<Rightarrow> True | _ \<Rightarrow> device = None)
           else True)
      | _ \<Rightarrow> False)"

text \<open>A state in which the anonymous key of \<^verbatim>\<open>10.0.0.1\<close> has used up its window.\<close>

definition busy_state :: ServerState where
  "busy_state =
     \<lparr>limiter = fst (consume_calls 60 Map.empty (replicate 60 (''anon:10.0.0.1'', 1000))),
      files = Map.empty\<rparr>"

text \<open>A state in which the device \<^verbatim>\<open>laptop-1\<close> has used up its window.\<close>

definition busy_device_state :: ServerState where
  "busy_device_state =
     \<lparr>limiter = fst (consume_calls 60 Map.empty (replicate 60 (''laptop-1'', 1000))),
      files = Map.empty\<rparr>"

section \<open>The runtime the adapters call\<close>

text \<open>
  The adapters reach outside the repository through \<^verbatim>\<open>new URL\<close>, \<^verbatim>\<open>fetch\<close>,
  \<^verbatim>\<open>isIP\<close>, \<^verbatim>\<open>readFileSync\<close>, \<^verbatim>\<open>new X509Certificate\<close> and \<^verbatim>\<open>Date.parse\<close>. These
  are the fields of a record; a result \<open>None\<close> stands for a call that throws (for
  \<^verbatim>\<open>Date.parse\<close>: for \<^verbatim>\<open>NaN\<close>).
\<close>

record URL =
  protocol :: string
  username :: string
  password :: string
  hostname :: string
  href :: string

text \<open>
  A fetch throws (network error, abort after the timeout), or gives a response with its
  \<^verbatim>\<open>ok\<close> flag and the result of \<^verbatim>\<open>response.json()\<close>, which throws on a body that
  is not JSON.
\<close>

datatype fetch_result = FetchThrows | FetchResponse bool "json option"

text \<open>
  The parts of an \<^verbatim>\<open>X509Certificate\<close> that the adapter reads. \<^verbatim>\<open>verify\<close> takes the
  public key of the issuer; keys are named by strings.
\<close>

record X509Certificate =
  validFrom :: string
  validTo :: string
  keyUsage :: "string list option"
  subject :: string
  subjectAltName :: "string option"
  publicKey :: string
  verify :: "string \<Rightarrow> bool option"

record Runtime =
  new_URL :: "string \<Rightarrow> URL option"
  fetch :: "string \<Rightarrow> headers \<Rightarrow> fetch_result"
  isIP :: "string \<Rightarrow> bool"
  readFileSync :: "string \<Rightarrow> string option"
  new_X509Certificate :: "string \<Rightarrow> X509Certificate option"
  Date_parse :: "string \<Rightarrow> int option"

text \<open>
  An adapter returns a device or \<^verbatim>\<open>null\<close>, or throws an \<^verbatim>\<open>Error\<close> with a message.
\<close>

type_synonym adapter_result = "string + DeviceContext option"

type_synonym config = "(string \<times> json) list option"

text \<open>\<^verbatim>\<open>typeof config?.name === "string" ? config.name : undefined\<close>\<close>

definition config_string :: "config \<Rightarrow> string \<Rightarrow> string option" where
  "config_string cfg name =
     (case cfg of
        None \<Rightarrow> None
      | Some members \<Rightarrow> (case map_of members name of Some (JStr s) \<Rightarrow> Some s | _ \<Rightarrow> None))"

text \<open>The truth value of a JSON value in a condition.\<close>

definition json_truthy :: "json \<Rightarrow> bool" where
  "json_truthy v =
     (case v of
        JNull \<Rightarrow> False
      | JBool b \<Rightarrow> b
      | JNum n \<Rightarrow> n \<noteq> 0
      | JStr s \<Rightarrow> s \<noteq> []
      | JArr xs \<Rightarrow> True
      | JObj ms \<Rightarrow> True)"



section \<open>HTTP helper and URL validation (utils/http.ts, utils/validation.ts)\<close>



section \<open>Jamf adapter (auth/jamf.ts)\<close>



section \<open>Tailscale adapter (auth/tailscale.ts)\<close>



section \<open>Certificate adapter (auth/mtls.ts)\<close>

text \<open>
  \<^verbatim>\<open>parseDistinguishedName\<close>, first loop: the input is cut at commas and slashes, a
  backslash taking the character after it as it is; the trimmed, non-empty pieces are
  the segments.
\<close>

fun dn_segments :: "string \<Rightarrow> bool \<Rightarrow> string list \<Rightarrow> string \<Rightarrow> string list" where
  "dn_segments current escaped segments [] =
     (if trim current \<noteq> [] then segments @ [trim current] else segments)"
| "dn_segments current escaped segments (c # cs) =
     (if escaped then dn_segments (current @ [c]) False segments cs
      else if c = CHR 0x5C then dn_segments current True segments cs
      else if c = CHR '','' \<or> c = CHR ''/'' then
        dn_segments [] False
          (if trim current \<noteq> [] then segments @ [trim current] else segments) cs
      else dn_segments (current @ [c]) False segments cs)"

text \<open>
  The result object starts as \<^verbatim>\<open>{}\<close>, so \<^verbatim>\<open>result[key]\<close> finds the members of
  \<^verbatim>\<open>Object.prototype\<close> under their names: for such a key \<^verbatim>\<open>!result[key]\<close> is false
  and \<^verbatim>\<open>result[key].push\<close> throws.
\<close>

definition object_prototype_keys :: "string list" where
  "object_prototype_keys =
     [''constructor'', ''__defineGetter__'', ''__defineSetter__'', ''hasOwnProperty'',
      ''__lookupGetter__'', ''__lookupSetter__'', ''isPrototypeOf'', ''propertyIsEnumerable'',
      ''toString'', ''valueOf'', ''__proto__'', ''toLocaleString'']"

text \<open>
  Second loop: a segment \<^verbatim>\<open>key=value\<close> with both sides non-empty after trimming adds
  the value to the list of its key. \<open>None\<close> stands for the \<^verbatim>\<open>TypeError\<close>.
\<close>

fun dn_collect :: "(string \<times> string list) list \<Rightarrow> string list \<Rightarrow> (string \<times> string list) list option" where
  "dn_collect result [] = Some result"
| "dn_collect result (segment # segments) =
     (case indexOf segment (CHR ''='') of
        None \<Rightarrow> dn_collect result segments
      | Some i \<Rightarrow>
          (let key = trim (take i segment);
               v = trim (drop (i + 1) segment)
           in if key = [] \<or> v = [] then dn_collect result segments
              else (case map_of result key of
                      Some vs \<Rightarrow> dn_collect (AList.update key (vs @ [v]) result) segments
                    | None \<Rightarrow>
                        if key \<in> set object_prototype_keys then None
                        else dn_collect (AList.update key [v] result) segments)))"

definition parseDistinguishedName :: "string \<Rightarrow> (string \<times> string list) list option" where
  "parseDistinguishedName input = dn_collect [] (dn_segments [] False [] input)"

definition parseSubjectAltNames :: "string option \<Rightarrow> string list" where
  "parseSubjectAltNames v =
     (if falsy v then []
      else
        filter (\<lambda>n. n \<noteq> [])
          (map (\<lambda>entry. case indexOf entry (CHR '':'') of
                           None \<Rightarrow> []
                         | Some i \<Rightarrow> trim (drop (i + 1) entry))
             (filter (\<lambda>entry. entry \<noteq> [])
                (map trim (split_char (CHR '','') (case v of Some s \<Rightarrow> s | None \<Rightarrow> []))))))"

text \<open>Every value collected for a key is a trimmed string.\<close>

definition values_trimmed :: "(string \<times> string list) list \<Rightarrow> bool" where
  "values_trimmed result = (\<forall>k vs. map_of result k = Some vs \<longrightarrow> (\<forall>v \<in> set vs. trim v = v))"

text \<open>
  \<^verbatim>\<open>altNames[0] || commonName || undefined\<close>, with
  \<^verbatim>\<open>commonName = subjectMap.CN?.[0]\<close>. The alternative names and the values of the map
  are never empty strings.
\<close>

definition candidate_id :: "string list \<Rightarrow> (string \<times> string list) list \<Rightarrow> string option" where
  "candidate_id altNames subjectMap =
     (case altNames of
        a # _ \<Rightarrow> Some a
      | [] \<Rightarrow> (case map_of subjectMap ''CN'' of Some (cn # _) \<Rightarrow> Some cn | _ \<Rightarrow> None))"

text \<open>
  \<^verbatim>\<open>authenticateMTLS\<close>. \<open>now\<close> is the reading of the clock for the validity
  window, \<open>now'\<close> the one for the record. A path that is not a string makes
  \<^verbatim>\<open>readFileSync\<close> throw.
\<close>

definition authenticateMTLS ::
  "Runtime \<Rightarrow> int \<Rightarrow> int \<Rightarrow> string option \<Rightarrow> config \<Rightarrow> adapter_result" where
  "authenticateMTLS rt now now' clientCert cfg =
     (if falsy clientCert then Inr None
      else
        (case (case cfg of None \<Rightarrow> None | Some members \<Rightarrow> map_of members ''ca_cert_path'') of
           None \<Rightarrow> Inl ''mTLS CA certificate path not configured''
         | Some ca_cert_path \<Rightarrow>
             if \<not> json_truthy ca_cert_path then Inl ''mTLS CA certificate path not configured''
             else
               (case (case ca_cert_path of JStr p \<Rightarrow> readFileSync rt p | _ \<Rightarrow> None) of
                  None \<Rightarrow> Inr None
                | Some caCertPem \<Rightarrow>
                    (case (new_X509Certificate rt caCertPem,
                           new_X509Certificate rt (case clientCert of Some pem \<Rightarrow> pem | None \<Rightarrow> [])) of
                       (Some caCert, Some clientX509) \<Rightarrow>
                         (case (Date_parse rt (validFrom clientX509), Date_parse rt (validTo clientX509)) of
                            (Some notBefore, Some notAfter) \<Rightarrow>
                              if now < notBefore \<or> now > notAfter then Inr None
                              else if verify clientX509 (publicKey caCert) \<noteq> Some True then Inr None
                              else if (case keyUsage clientX509 of
                                         None \<Rightarrow> False
                                       | Some usages \<Rightarrow> ''Digital Signature'' \<notin> set usages)
                              then Inr None
                              else
                                (case parseDistinguishedName (subject clientX509) of
                                   None \<Rightarrow> Inr None
                                 | Some subjectMap \<Rightarrow>
                                     (case validateDeviceId
                                             (candidate_id
                                                (parseSubjectAltNames (subjectAltName clientX509))
                                                subjectMap) of
                                        None \<Rightarrow> Inr None
                                      | Some deviceId \<Rightarrow>
                                          Inr (Some
                                            \<lparr>device_id = deviceId, device_name = None, user_id = None,
                                             auth_method = ''mtls'', ip_address = ''0.0.0.0'',
                                             verified_at = now'\<rparr>)))
                          | _ \<Rightarrow> Inr None)
                     | _ \<Rightarrow> Inr None))))"

text \<open>
  The three checks of the certificate adapter and the identity it derives, as the
  specification names them.
\<close>

definition in_validity_window :: "Runtime \<Rightarrow> int \<Rightarrow> X509Certificate \<Rightarrow> bool" where
  "in_validity_window rt now cert =
     (case (Date_parse rt (validFrom cert), Date_parse rt (validTo cert)) of
        (Some notBefore, Some notAfter) \<Rightarrow> notBefore \<le> now \<and> now \<le> notAfter
      | _ \<Rightarrow> False)"

definition signed_by :: "X509Certificate \<Rightarrow> X509Certificate \<Rightarrow> bool" where
  "signed_by cert ca = (verify cert (publicKey ca) = Some True)"

definition key_usage_ok :: "X509Certificate \<Rightarrow> bool" where
  "key_usage_ok cert =
     (case keyUsage cert of None \<Rightarrow> True | Some usages \<Rightarrow> ''Digital Signature'' \<in> set usages)"

text \<open>The first subject alternative name when there is one, else the first common name.\<close>

definition certificate_identity :: "X509Certificate \<Rightarrow> string option" where
  "certificate_identity cert =
     (case parseSubjectAltNames (subjectAltName cert) of
        a # _ \<Rightarrow> Some a
      | [] \<Rightarrow>
          (case parseDistinguishedName (subject cert) of
             None \<Rightarrow> None
           | Some subjectMap \<Rightarrow>
               (case map_of subjectMap ''CN'' of Some (cn # _) \<Rightarrow> Some cn | _ \<Rightarrow> None)))"

text \<open>The configured CA certificate, loaded: the path is read and the text parsed.\<close>

definition load_ca :: "Runtime \<Rightarrow> config \<Rightarrow> X509Certificate option" where
  "load_ca rt cfg =
     (case config_string cfg ''ca_cert_path'' of
        None \<Rightarrow> None
      | Some path \<Rightarrow>
          (case readFileSync rt path of
             None \<Rightarrow> None
           | Some caCertPem \<Rightarrow> new_X509Certificate rt caCertPem))"



definition mtls_configured :: "config \<Rightarrow> bool" where
  "mtls_configured cfg =
     (case cfg of
        None \<Rightarrow> False
      | Some members \<Rightarrow>
          (case map_of members ''ca_cert_path'' of None \<Rightarrow> False | Some v \<Rightarrow> json_truthy v))"


text \<open>
  A runtime for examples: one CA in \<^verbatim>\<open>/etc/gitgate/ca.pem\<close>, one client certificate
  signed by it and valid from 1000 to 5000, and an identity provider that answers every
  fetch with the given result.
\<close>

definition example_ca :: X509Certificate where
  "example_ca =
     \<lparr>validFrom = ''t0'', validTo = ''t9'', keyUsage = None, subject = ''CN=Fleet CA'',
      subjectAltName = None, publicKey = ''ca-key'', verify = (\<lambda>key. Some (key = ''ca-key''))\<rparr>"

definition example_cert :: "string option \<Rightarrow> X509Certificate" where
  "example_cert san =
     \<lparr>validFrom = ''t1'', validTo = ''t5'', keyUsage = Some [''Digital Signature''],
      subject = ''O=Acme,CN=laptop-7'', subjectAltName = san, publicKey = ''client-key'',
      verify = (\<lambda>key. Some (key = ''ca-key''))\<rparr>"

definition example_runtime :: "fetch_result \<Rightarrow> Runtime" where
  "example_runtime answer =
     \<lparr>new_URL = (\<lambda>s. if startsWith s ''https://''
                     then Some \<lparr>protocol = ''https:'', username = [], password = [],
                                 hostname = ''host'', href = s\<rparr>
                     else None),
      fetch = (\<lambda>url hs. answer),
      isIP = (\<lambda>s. s = ''10.0.0.1''),
      readFileSync = (\<lambda>path. if path = ''/etc/gitgate/ca.pem'' then Some ''CA PEM'' else None),
      new_X509Certificate = (\<lambda>pem.
         if pem = ''CA PEM'' then Some example_ca
         else if pem = ''CLIENT PEM'' then Some (example_cert (Some ''DNS:laptop-7.fleet, IP Address:10.0.0.1''))
         else if pem = ''CLIENT PEM NO SAN'' then Some (example_cert None)
         else None),
      Date_parse = (\<lambda>s. if s = ''t0'' then Some 0 else if s = ''t1'' then Some 1000
                         else if s = ''t5'' then Some 5000 else if s = ''t9'' then Some 9000 else None)\<rparr>"

definition example_mtls_config :: config where
  "example_mtls_config = Some [(''ca_cert_path'', JStr ''/etc/gitgate/ca.pem''), (''require_client_cert'', JBool True)]"




chapter \<open>The properties\<close>

section \<open>Properties of the rate limiter\<close>

subsection \<open>The limiter against the state machine of the specification\<close>

lemma consumeState_refines:
  assumes "0 \<le> now"
  shows "abs_state (fst (consumeState limit now st)) = fst (spec_consume limit now (Some (abs_state st)))"
    and "result_matches (snd (consumeState limit now st)) (snd (spec_consume limit now (Some (abs_state st))))"
  using assms
  by (auto simp: consumeState_def spec_consume_def abs_state_def Let_def violations_or_0_def
      is_blocked_def spec_locked_def result_matches_def split: option.splits)

lemma consumeInternal_refines:
  assumes "0 \<le> now"
  shows "abs_limits (fst (consumeInternal limit now m k)) = (abs_limits m)(k \<mapsto> fst (spec_consume limit now (abs_limits m k)))"
    and "result_matches (snd (consumeInternal limit now m k)) (snd (spec_consume limit now (abs_limits m k)))"
proof -
  show "abs_limits (fst (consumeInternal limit now m k)) = (abs_limits m)(k \<mapsto> fst (spec_consume limit now (abs_limits m k)))"
  proof (cases "m k")
    case None
    then show ?thesis
      by (auto simp: consumeInternal_def abs_limits_def spec_consume_def abs_state_def violations_or_0_def fun_eq_iff)
  next
    case (Some st)
    then show ?thesis
      using consumeState_refines(1)[OF assms, of limit st]
      by (auto simp: consumeInternal_def abs_limits_def fun_eq_iff split: prod.splits)
  qed
  show "result_matches (snd (consumeInternal limit now m k)) (snd (spec_consume limit now (abs_limits m k)))"
  proof (cases "m k")
    case None
    then show ?thesis
      by (simp add: consumeInternal_def abs_limits_def spec_consume_def result_matches_def)
  next
    case (Some st)
    then show ?thesis
      using consumeState_refines(2)[OF assms, of limit st]
      by (auto simp: consumeInternal_def abs_limits_def split: prod.splits)
  qed
qed

text \<open>
  Claim C2. For every key and every sequence of \<^verbatim>\<open>consume\<close> calls (at times
  \<^verbatim>\<open>Date.now()\<close> \<open>\<ge> 0\<close>), the limiter of the source and the state machine of the
  specification stay in step: the per-key states agree under \<open>abs_state\<close> after the
  run, every call is admitted by the one exactly when it is by the other, and a call
  that finds its key locked is answered with remaining = 0 and the lockout's end as
  reset time. The machine creates the state with count 1 and a window of 60 s, denies
  without touching the state while locked, resets the count to 1 and forgives one
  violation when the window has expired, counts up under the limit, and at the limit
  counts a violation and locks for min(15 min, 60 s * violations).
\<close>

theorem consume_implements_state_machine:
  "\<forall>c \<in> set cs. 0 \<le> snd c \<Longrightarrow>
   abs_limits (fst (consume_calls limit m cs)) = fst (spec_calls limit (abs_limits m) cs) \<and>
   list_all2 result_matches (snd (consume_calls limit m cs)) (snd (spec_calls limit (abs_limits m) cs))"
proof (induction cs arbitrary: m)
  case Nil
  then show ?case by simp
next
  case (Cons c cs)
  obtain k t where c: "c = (k, t)" by (cases c)
  from Cons.prems c have t: "0 \<le> t" by simp
  from Cons.prems have rest: "\<forall>c \<in> set cs. 0 \<le> snd c" by simp
  obtain m' r where step: "consumeInternal limit t m k = (m', r)" by (cases "consumeInternal limit t m k")
  from consumeInternal_refines[OF t, of limit m k] step
  have a: "abs_limits m' = (abs_limits m)(k \<mapsto> fst (spec_consume limit t (abs_limits m k)))"
    and b: "result_matches r (snd (spec_consume limit t (abs_limits m k)))" by simp_all
  note IH = Cons.IH[OF rest, of m', unfolded a]
  show ?case
    unfolding c by (simp only: consume_calls.simps spec_calls.simps step split_beta Let_def fst_conv snd_conv list_all2_Cons b IH simp_thms)
qed

theorem consume_implements_state_machine_witness:
  "abs_limits (fst (consume_calls 2 Map.empty [(''a'', 5), (''a'', 6), (''b'', 7), (''a'', 8), (''a'', 9), (''a'', 70000)])) ''a''
     = Some \<lparr>window_count = 1, window_reset_at = 130000, locked_until = Some 60008, violation_count = 0\<rparr> \<and>
   map allowed (snd (consume_calls 2 Map.empty [(''a'', 5), (''a'', 6), (''b'', 7), (''a'', 8), (''a'', 9), (''a'', 70000)]))
     = [True, True, True, False, False, True] \<and>
   list_all2 result_matches
     (snd (consume_calls 2 Map.empty [(''a'', 5), (''a'', 6), (''b'', 7), (''a'', 8), (''a'', 9), (''a'', 70000)]))
     (snd (spec_calls 2 (abs_limits Map.empty) [(''a'', 5), (''a'', 6), (''b'', 7), (''a'', 8), (''a'', 9), (''a'', 70000)]))"
  using consume_implements_state_machine[of "[(''a'', 5), (''a'', 6), (''b'', 7), (''a'', 8), (''a'', 9), (''a'', 70000)]" 2 Map.empty]
  by (simp add: consumeInternal_def consumeState_def is_blocked_def violations_or_0_def spec_consume_def
      spec_locked_def abs_limits_def abs_state_def)

subsection \<open>Windows, lockouts and forgiveness\<close>

lemma window_fill:
  assumes "m k = Some st" "blocked_until st = None" "\<forall>t \<in> set ts. t \<le> reset_at st"
    "requests st + int (length ts) \<le> limit"
  shows "consume_calls limit m (map (Pair k) ts) =
           (m(k \<mapsto> st\<lparr>requests := requests st + int (length ts)\<rparr>),
            map (\<lambda>i. \<lparr>allowed = True, remaining = max 0 (limit - (requests st + 1 + int i)), result_reset_at = reset_at st\<rparr>) [0..<length ts])"
  using assms
proof (induction ts arbitrary: m st)
  case Nil
  then show ?case by (simp add: map_upd_triv)
next
  case (Cons t ts)
  let ?st' = "st\<lparr>requests := requests st + 1\<rparr>"
  from Cons.prems have step: "consumeInternal limit t m k = (m(k \<mapsto> ?st'), \<lparr>allowed = True, remaining = max 0 (limit - (requests st + 1)), result_reset_at = reset_at st\<rparr>)"
    by (simp add: consumeInternal_def consumeState_def is_blocked_def)
  have "consume_calls limit (m(k \<mapsto> ?st')) (map (Pair k) ts) =
           ((m(k \<mapsto> ?st'))(k \<mapsto> ?st'\<lparr>requests := requests ?st' + int (length ts)\<rparr>),
            map (\<lambda>i. \<lparr>allowed = True, remaining = max 0 (limit - (requests ?st' + 1 + int i)), result_reset_at = reset_at ?st'\<rparr>) [0..<length ts])"
    using Cons.prems by (intro Cons.IH) auto
  with step show ?case by (auto simp add: split_beta add.assoc upt_conv_Cons map_Suc_upt[symmetric] fun_eq_iff simp del: upt_Suc)
qed

lemma violation_step:
  assumes "\<not> is_blocked now st" "now \<le> reset_at st" "limit \<le> requests st"
  shows "consumeState limit now st =
           (st\<lparr>violations := Some (violations_or_0 st + 1),
               blocked_until := Some (now + min 900000 (60000 * (violations_or_0 st + 1)))\<rparr>,
            \<lparr>allowed = False, remaining = 0,
             result_reset_at = now + min 900000 (60000 * (violations_or_0 st + 1))\<rparr>)"
  using assms by (simp add: consumeState_def Let_def)

lemma reset_step:
  assumes "\<not> is_blocked now st" "reset_at st < now"
  shows "consumeState limit now st =
           (st\<lparr>requests := 1, reset_at := now + 60000,
               violations := Some (max 0 (violations_or_0 st - 1))\<rparr>,
            \<lparr>allowed = True, remaining = max 0 (limit - 1), result_reset_at = now + 60000\<rparr>)"
  using assms by (simp add: consumeState_def)

lemma sixty_first_denied:
  assumes "m k = None" "length ts = 59" "\<forall>t \<in> set ts. t \<le> t0 + 60000" "t61 \<le> t0 + 60000"
  shows "snd (consume_calls 60 m (map (Pair k) (t0 # ts @ [t61]))) =
           map (\<lambda>i. \<lparr>allowed = True, remaining = 59 - int i, result_reset_at = t0 + 60000\<rparr>) [0..<60]
           @ [\<lparr>allowed = False, remaining = 0, result_reset_at = t61 + 60000\<rparr>]"
proof -
  let ?st0 = "\<lparr>requests = 1, reset_at = t0 + 60000, blocked_until = None, violations = Some 0\<rparr>"
  let ?m0 = "m(k \<mapsto> ?st0)"
  let ?r0 = "\<lparr>allowed = True, remaining = 59, result_reset_at = t0 + 60000\<rparr>"
  have first: "consumeInternal 60 t0 m k = (?m0, ?r0)"
    using assms(1) by (simp add: consumeInternal_def)
  have fill: "consume_calls 60 ?m0 (map (Pair k) ts) =
      (?m0(k \<mapsto> ?st0\<lparr>requests := requests ?st0 + int (length ts)\<rparr>),
       map (\<lambda>i. \<lparr>allowed = True, remaining = max 0 (60 - (requests ?st0 + 1 + int i)),
                 result_reset_at = reset_at ?st0\<rparr>) [0..<length ts])"
    using assms(2,3) by (intro window_fill) auto
  let ?st1 = "\<lparr>requests = 60, reset_at = t0 + 60000, blocked_until = None, violations = Some 0\<rparr>"
  let ?m1 = "m(k \<mapsto> ?st1)"
  have fill': "consume_calls 60 ?m0 (map (Pair k) ts) =
      (?m1, map (\<lambda>i. \<lparr>allowed = True, remaining = 58 - int i, result_reset_at = t0 + 60000\<rparr>) [0..<59])"
    unfolding fill using assms(2) by (auto simp: fun_eq_iff)
  have last: "consumeInternal 60 t61 ?m1 k =
      (?m1(k \<mapsto> ?st1\<lparr>violations := Some 1, blocked_until := Some (t61 + 60000)\<rparr>),
       \<lparr>allowed = False, remaining = 0, result_reset_at = t61 + 60000\<rparr>)"
    using assms(4) by (simp add: consumeInternal_def consumeState_def is_blocked_def violations_or_0_def)
  have app: "\<And>xs ys m. snd (consume_calls 60 m (xs @ ys)) =
      snd (consume_calls 60 m xs) @ snd (consume_calls 60 (fst (consume_calls 60 m xs)) ys)"
  proof -
    fix xs ys show "\<And>m. snd (consume_calls 60 m (xs @ ys)) =
      snd (consume_calls 60 m xs) @ snd (consume_calls 60 (fst (consume_calls 60 m xs)) ys)"
      by (induction xs) (auto simp: split_beta)
  qed
  have "snd (consume_calls 60 ?m0 (map (Pair k) (ts @ [t61]))) =
     map (\<lambda>i. \<lparr>allowed = True, remaining = 58 - int i, result_reset_at = t0 + 60000\<rparr>) [0..<59]
       @ [\<lparr>allowed = False, remaining = 0, result_reset_at = t61 + 60000\<rparr>]"
    by (simp add: app fill' last)
  moreover have "map (\<lambda>i. \<lparr>allowed = True, remaining = 59 - int i, result_reset_at = t0 + 60000\<rparr>) [0..<60]
     = ?r0 # map (\<lambda>i. \<lparr>allowed = True, remaining = 58 - int i, result_reset_at = t0 + 60000\<rparr>) [0..<59]"
  proof -
    have "[0..<60] = 0 # map Suc [0..<59]"
      by (simp add: upt_conv_Cons map_Suc_upt del: upt_Suc)
    then show ?thesis by (simp add: comp_def del: upt_Suc)
  qed
  ultimately show ?thesis
    using first by (simp add: split_beta)
qed

lemma window_exhausted_denied:
  assumes "m k = Some st" "limit \<le> requests st" "now \<le> reset_at st"
  shows "\<not> allowed (snd (consumeInternal limit now m k)) \<and>
         remaining (snd (consumeInternal limit now m k)) = 0"
  using assms
  by (auto simp: consumeInternal_def consumeState_def Let_def split: option.splits)

text \<open>
  Two consecutive violations of one key, the second made after the first lockout has
  ended: both lockouts last 60 s, because the call that opens the second window has
  forgiven the first violation.
\<close>

lemma violation_trace_lockouts:
  "sorted (map snd violation_trace) \<and>
   lockout_durations 60 Map.empty violation_trace = [60000, 60000]"
  unfolding violation_trace_def by code_simp

subsection \<open>The escalation of lockouts never gets going\<close>

text \<open>
  A lockout lasts at least 60 s, a window exactly 60 s, and the window was opened no
  later than the violation that starts the lockout. So when a lockout ends its window
  has ended too (or ends at that very millisecond), and the first call admitted
  afterwards opens a new window and takes one violation off the count. On a run whose
  calls arrive in the order of their times the count therefore never exceeds 2.
\<close>

lemma escalation_stalled_later:
  "escalation_stalled t st \<Longrightarrow> t \<le> t' \<Longrightarrow> escalation_stalled t' st"
  by (auto simp: escalation_stalled_def)

lemma consumeState_stalled:
  assumes "escalation_stalled t st" "t \<le> now" "0 \<le> now"
  shows "escalation_stalled now (fst (consumeState limit now st))"
    and "\<not> allowed (snd (consumeState limit now st)) \<Longrightarrow> \<not> is_blocked now st \<Longrightarrow>
         result_reset_at (snd (consumeState limit now st)) - now \<in> {60000, 120000}"
proof -
  from assms(1) have v: "0 \<le> violations_or_0 st" "violations_or_0 st \<le> 2"
    and w: "reset_at st \<le> t + 60000"
    and two: "violations_or_0 st = 2 \<Longrightarrow> is_blocked now st \<or> reset_at st < now"
    by (auto simp: escalation_stalled_def is_blocked_def split: option.splits)
  show "escalation_stalled now (fst (consumeState limit now st))"
  proof (cases "is_blocked now st")
    case True
    then have "fst (consumeState limit now st) = st"
      by (auto simp: consumeState_def is_blocked_def split: option.splits)
    with assms(1,2) show ?thesis by (simp add: escalation_stalled_later)
  next
    case nb: False
    show ?thesis
    proof (cases "reset_at st < now")
      case True
      with nb have "fst (consumeState limit now st) =
          st\<lparr>requests := 1, reset_at := now + 60000,
             violations := Some (max 0 (violations_or_0 st - 1))\<rparr>"
        by (simp add: consumeState_def)
      moreover from v have "0 \<le> max 0 (violations_or_0 st - 1)" "max 0 (violations_or_0 st - 1) \<le> 2"
        "max 0 (violations_or_0 st - 1) \<noteq> 2"
        by simp_all
      ultimately show ?thesis
        unfolding escalation_stalled_def by (simp add: violations_or_0_def[of "st\<lparr>requests := 1, reset_at := now + 60000,
             violations := Some (max 0 (violations_or_0 st - 1))\<rparr>"])
    next
      case ne: False
      with two nb have v1: "violations_or_0 st \<le> 1" using v(2) by force
      show ?thesis
      proof (cases "requests st < limit")
        case True
        with nb ne have "fst (consumeState limit now st) = st\<lparr>requests := requests st + 1\<rparr>"
          by (simp add: consumeState_def)
        moreover from assms(1,2) have "escalation_stalled now st" by (rule escalation_stalled_later)
        ultimately show ?thesis
          by (auto simp: escalation_stalled_def violations_or_0_def split: option.splits)
      next
        case False
        with nb ne have "fst (consumeState limit now st) =
            st\<lparr>violations := Some (violations_or_0 st + 1),
               blocked_until := Some (now + min 900000 (60000 * (violations_or_0 st + 1)))\<rparr>"
          by (simp add: consumeState_def Let_def)
        with v v1 w assms(2,3) show ?thesis
          by (auto simp: escalation_stalled_def violations_or_0_def split: option.splits)
      qed
    qed
  qed
  assume d: "\<not> allowed (snd (consumeState limit now st))" and nb: "\<not> is_blocked now st"
  from d nb have viol: "\<not> reset_at st < now" "\<not> requests st < limit"
    by (auto simp: consumeState_def split: if_splits)
  with two nb have v1: "violations_or_0 st \<le> 1" using v(2) by force
  from nb viol have "result_reset_at (snd (consumeState limit now st)) =
      now + min 900000 (60000 * (violations_or_0 st + 1))"
    by (simp add: consumeState_def Let_def)
  moreover from v(1) v1 have "violations_or_0 st = 0 \<or> violations_or_0 st = 1" by linarith
  ultimately show "result_reset_at (snd (consumeState limit now st)) - now \<in> {60000, 120000}"
    by auto
qed

lemma consumeInternal_stalled:
  assumes "all_stalled t m" "t \<le> now" "0 \<le> now"
  shows "all_stalled now (fst (consumeInternal limit now m k))"
proof (cases "m k")
  case None
  have fresh: "escalation_stalled now
      \<lparr>requests = 1, reset_at = now + 60000, blocked_until = None, violations = Some 0\<rparr>"
    by (simp add: escalation_stalled_def violations_or_0_def)
  have "escalation_stalled now st'" if "fst (consumeInternal limit now m k) k' = Some st'" for k' st'
  proof (cases "k' = k")
    case True
    with that None fresh show ?thesis by (simp add: consumeInternal_def)
  next
    case False
    with that None have "m k' = Some st'" by (simp add: consumeInternal_def)
    with assms(1) have "escalation_stalled t st'" by (simp add: all_stalled_def)
    then show ?thesis using assms(2) by (rule escalation_stalled_later)
  qed
  then show ?thesis by (simp add: all_stalled_def)
next
  case (Some st)
  with assms(1) have "escalation_stalled t st" by (simp add: all_stalled_def)
  then have new: "escalation_stalled now (fst (consumeState limit now st))"
    using assms(2,3) by (rule consumeState_stalled(1))
  have "escalation_stalled now st'" if "fst (consumeInternal limit now m k) k' = Some st'" for k' st'
  proof (cases "k' = k")
    case True
    with that Some new show ?thesis by (simp add: consumeInternal_def split_beta)
  next
    case False
    with that Some have "m k' = Some st'" by (simp add: consumeInternal_def split_beta)
    with assms(1) have "escalation_stalled t st'" by (simp add: all_stalled_def)
    then show ?thesis using assms(2) by (rule escalation_stalled_later)
  qed
  then show ?thesis by (simp add: all_stalled_def)
qed

lemma lockouts_stalled:
  assumes "sorted (map snd cs)" "\<forall>c \<in> set cs. t \<le> snd c" "0 \<le> t" "all_stalled t m"
  shows "\<forall>d \<in> set (lockout_durations limit m cs). d = 60000 \<or> d = 120000"
  using assms
proof (induction cs arbitrary: t m)
  case Nil
  then show ?case by simp
next
  case (Cons c cs)
  obtain k now where c: "c = (k, now)" by (cases c)
  from Cons.prems c have now: "t \<le> now" "0 \<le> now" by auto
  from Cons.prems c have rest: "sorted (map snd cs)" "\<forall>c \<in> set cs. now \<le> snd c" by auto
  have st': "all_stalled now (fst (consumeInternal limit now m k))"
    using Cons.prems(4) now by (rule consumeInternal_stalled)
  have tail: "\<forall>d \<in> set (lockout_durations limit (fst (consumeInternal limit now m k)) cs).
      d = 60000 \<or> d = 120000"
    using rest now(2) st' by (rule Cons.IH)
  have head: "\<not> allowed (snd (consumeInternal limit now m k)) \<Longrightarrow>
      \<not> (case m k of None \<Rightarrow> False | Some state \<Rightarrow> is_blocked now state) \<Longrightarrow>
      result_reset_at (snd (consumeInternal limit now m k)) - now \<in> {60000, 120000}"
  proof (cases "m k")
    case None
    assume "\<not> allowed (snd (consumeInternal limit now m k))"
    with None show ?thesis by (simp add: consumeInternal_def)
  next
    case (Some st)
    assume a: "\<not> allowed (snd (consumeInternal limit now m k))"
      "\<not> (case m k of None \<Rightarrow> False | Some state \<Rightarrow> is_blocked now state)"
    from Some Cons.prems(4) have "escalation_stalled t st" by (simp add: all_stalled_def)
    from consumeState_stalled(2)[OF this now, of limit] a Some show ?thesis
      by (simp add: consumeInternal_def split_beta)
  qed
  show ?case
    using head tail by (auto simp: c split_beta Let_def)
qed

text \<open>
  On every time-ordered run from the empty mapping, whatever the limit and however many
  keys and violations, each lockout lasts 60 s or 120 s: the cap of 15 minutes in
  \<^verbatim>\<open>Math.min(15 * 60 * 1000, 60000 * violations)\<close> is never reached.
\<close>

lemma lockouts_never_reach_cap:
  assumes "sorted (map snd cs)" "\<forall>c \<in> set cs. 0 \<le> snd c"
  shows "\<forall>d \<in> set (lockout_durations limit Map.empty cs). d = 60000 \<or> d = 120000"
proof -
  have "all_stalled 0 Map.empty" by (simp add: all_stalled_def)
  with assms show ?thesis
    using lockouts_stalled[of cs 0 Map.empty limit] by simp
qed

lemma abuse_times: "\<forall>c \<in> set (abuse_rounds n start). start \<le> snd c"
  by (induction n arbitrary: start) (fastforce)+

lemma abuse_sorted: "sorted (map snd (abuse_rounds n start))"
proof (induction n arbitrary: start)
  case 0
  show ?case by simp
next
  case (Suc n)
  have "\<forall>c \<in> set (abuse_rounds n (start + 61000)). start + 61000 \<le> snd c" by (rule abuse_times)
  then have later: "\<forall>c \<in> set (abuse_rounds n (start + 61000)). start + 1000 \<le> snd c" by fastforce
  have "sorted (map snd (abuse_rounds n (start + 61000)))" by (rule Suc.IH)
  with later show ?case
    by (auto simp: sorted_append)
qed

text \<open>
  Claim C3 asks that across consecutive violations of one key each lockout be strictly
  longer than the one before, up to the cap of 15 minutes. The limiter computes the
  lockout as min(15 min, 60 s * violations), but the violation taken off at each window
  reset undoes the increment before the next violation: under sustained abuse by one
  device (\<open>abuse_rounds\<close>: five rounds, each of 60 admitted requests and a 61st that is
  denied, the next round starting when the lockout ends) the five lockouts all last
  60 s. The run is time-ordered, every 61st call is denied with remaining = 0, and the
  list of lockouts is not escalating.
\<close>

theorem lockout_escalation_stalls:
  "sorted (map snd (abuse_rounds 5 0)) \<and>
   lockout_durations 60 Map.empty (abuse_rounds 5 0) = [60000, 60000, 60000, 60000, 60000] \<and>
   \<not> escalating (lockout_durations 60 Map.empty (abuse_rounds 5 0)) \<and>
   map (\<lambda>r. (allowed r, remaining r)) (filter (\<lambda>r. \<not> allowed r) (snd (consume_calls 60 Map.empty (abuse_rounds 5 0))))
     = replicate 5 (False, 0)"
proof -
  have d: "lockout_durations 60 Map.empty (abuse_rounds 5 0) = [60000, 60000, 60000, 60000, 60000]"
    by code_simp
  have r: "map (\<lambda>r. (allowed r, remaining r)) (filter (\<lambda>r. \<not> allowed r) (snd (consume_calls 60 Map.empty (abuse_rounds 5 0))))
     = replicate 5 (False, 0)"
    by code_simp
  show ?thesis
    unfolding d using abuse_sorted[of 5 0] r by simp
qed

subsection \<open>The invariant of reachable states\<close>

lemma consumeState_ok:
  "1 \<le> limit \<Longrightarrow> state_ok limit st \<Longrightarrow> state_ok limit (fst (consumeState limit now st))"
  by (auto simp: state_ok_def consumeState_def violations_or_0_def Let_def split: option.splits)

lemma consumeInternal_ok:
  assumes "1 \<le> limit" "\<forall>k st. m k = Some st \<longrightarrow> state_ok limit st"
  shows "\<forall>k st. fst (consumeInternal limit now m k') k = Some st \<longrightarrow> state_ok limit st"
proof (cases "m k'")
  case None
  with assms show ?thesis
    by (auto simp: consumeInternal_def state_ok_def violations_or_0_def)
next
  case (Some s)
  with assms consumeState_ok[OF assms(1), of s now] show ?thesis
    by (auto simp: consumeInternal_def split_beta)
qed

lemma consume_calls_ok:
  assumes "1 \<le> limit"
  shows "(\<forall>k st. m k = Some st \<longrightarrow> state_ok limit st) \<Longrightarrow>
    \<forall>k st. fst (consume_calls limit m cs) k = Some st \<longrightarrow> state_ok limit st"
proof (induction cs arbitrary: m)
  case Nil
  then show ?case by simp
next
  case (Cons c cs)
  obtain k' t where c: "c = (k', t)" by (cases c)
  have "\<forall>k st. fst (consumeInternal limit t m k') k = Some st \<longrightarrow> state_ok limit st"
    using consumeInternal_ok[OF assms Cons.prems] .
  from Cons.IH[OF this] show ?case
    by (simp add: c split_beta)
qed

lemma lock_in_future:
  assumes "0 \<le> violations_or_0 st"
  shows "blocked_until (fst (consumeState limit now st)) = blocked_until st \<or>
         (\<exists>b. blocked_until (fst (consumeState limit now st)) = Some b \<and> now < b)"
  using assms by (auto simp: consumeState_def Let_def split: option.splits)

text \<open>
  Claim C9. In every state of the per-key mapping that a run of \<^verbatim>\<open>consume\<close> calls
  reaches from the empty mapping (with a limit of at least 1, as the server's 60), no
  key's request count exceeds the limit (locked or not), and a call that changes a
  key's \<^verbatim>\<open>blocked_until\<close> sets it to a time strictly after the time of the call.
\<close>

theorem window_count_bounded_and_lock_in_future:
  assumes "1 \<le> limit" "fst (consume_calls limit Map.empty cs) k = Some st"
  shows "requests st \<le> limit \<and>
         (\<forall>now. case fst (consumeInternal limit now (fst (consume_calls limit Map.empty cs)) k) k of
                  None \<Rightarrow> False
                | Some st' \<Rightarrow> blocked_until st' = blocked_until st \<or>
                              (\<exists>b. blocked_until st' = Some b \<and> now < b))"
proof -
  have "state_ok limit st"
    using consume_calls_ok[OF assms(1), of Map.empty cs] assms(2) by simp
  then show ?thesis
    using lock_in_future[of st limit] assms(2)
    by (auto simp: state_ok_def consumeInternal_def split_beta)
qed

theorem window_count_bounded_and_lock_in_future_witness:
  "(1::int) \<le> 2 \<and>
   fst (consume_calls 2 Map.empty [(''a'', 5), (''a'', 6), (''a'', 8)]) ''a'' =
     Some \<lparr>requests = 2, reset_at = 60005, blocked_until = Some 60008, violations = Some 1\<rparr> \<and>
   requests \<lparr>requests = 2, reset_at = 60005, blocked_until = Some 60008, violations = Some 1\<rparr> \<le> 2 \<and>
   (\<forall>now. case fst (consumeInternal 2 now (fst (consume_calls 2 Map.empty [(''a'', 5), (''a'', 6), (''a'', 8)])) ''a'') ''a'' of
                  None \<Rightarrow> False
                | Some st' \<Rightarrow>
                    blocked_until st' =
                      blocked_until \<lparr>requests = 2, reset_at = 60005, blocked_until = Some 60008, violations = Some 1\<rparr> \<or>
                    (\<exists>b. blocked_until st' = Some b \<and> now < b))"
proof -
  have l: "(1::int) \<le> 2" by simp
  have r: "fst (consume_calls 2 Map.empty [(''a'', 5), (''a'', 6), (''a'', 8)]) ''a'' =
     Some \<lparr>requests = 2, reset_at = 60005, blocked_until = Some 60008, violations = Some 1\<rparr>"
    by (simp add: consumeInternal_def consumeState_def is_blocked_def violations_or_0_def)
  from window_count_bounded_and_lock_in_future[OF l r] l r show ?thesis
    by blast
qed

subsection \<open>The remaining-requests projection during a lockout\<close>

text \<open>
  Claim C10. For a key that is still locked out (\<^verbatim>\<open>blocked_until\<close> set and in the
  future) but whose window has already ended, \<^verbatim>\<open>getRemainingRequests\<close> returns the full
  limit, because it tests the end of the window before the lockout, while
  \<^verbatim>\<open>consume\<close> for the same key at the same time denies with remaining = 0 and leaves
  the state as it is.
\<close>

theorem remaining_projection_ignores_lockout:
  assumes "m k = Some st" "blocked_until st = Some b" "now < b" "0 \<le> now" "reset_at st < now"
  shows "getRemainingRequests limit now m k = limit \<and>
         consumeInternal limit now m k = (m, \<lparr>allowed = False, remaining = 0, result_reset_at = b\<rparr>)"
  using assms
  by (auto simp: getRemainingRequests_def consumeInternal_def consumeState_def is_blocked_def fun_eq_iff)

theorem remaining_projection_ignores_lockout_witness:
  "fst (consume_calls 60 Map.empty (replicate 60 (''dev'', 0) @ [(''dev'', 59999)])) ''dev'' =
     Some \<lparr>requests = 60, reset_at = 60000, blocked_until = Some 119999, violations = Some 1\<rparr> \<and>
   (60001::int) < 119999 \<and> (0::int) \<le> 60001 \<and> (60000::int) < 60001 \<and>
   getRemainingRequests 60 60001 (fst (consume_calls 60 Map.empty (replicate 60 (''dev'', 0) @ [(''dev'', 59999)]))) ''dev'' = 60 \<and>
   snd (consumeInternal 60 60001 (fst (consume_calls 60 Map.empty (replicate 60 (''dev'', 0) @ [(''dev'', 59999)]))) ''dev'')
     = \<lparr>allowed = False, remaining = 0, result_reset_at = 119999\<rparr>"
proof -
  have r: "fst (consume_calls 60 Map.empty (replicate 60 (''dev'', 0) @ [(''dev'', 59999)])) ''dev'' =
     Some \<lparr>requests = 60, reset_at = 60000, blocked_until = Some 119999, violations = Some 1\<rparr>"
    by code_simp
  show ?thesis
    using remaining_projection_ignores_lockout[of "fst (consume_calls 60 Map.empty (replicate 60 (''dev'', 0) @ [(''dev'', 59999)]))" "''dev''" _ 119999 60001 60, OF r] r
    by simp
qed

section \<open>Properties of path safety\<close>

lemma trim_keeps:
  assumes "x \<in> set s" "\<not> is_space x"
  shows "x \<in> set (trim s)"
proof -
  have a: "x \<in> set xs \<Longrightarrow> x \<in> set (dropWhile is_space xs)" for xs
    using assms(2) by (induction xs) auto
  have "x \<in> set (dropWhile is_space s)" using assms(1) by (rule a)
  then have "x \<in> set (rev (dropWhile is_space s))" by simp
  then have "x \<in> set (dropWhile is_space (rev (dropWhile is_space s)))" by (rule a)
  then show ?thesis by (simp add: trim_def)
qed

lemma split_where_nonempty: "split_where P s \<noteq> []"
  by (induction s) (auto split: list.splits)

lemma split_where_sep:
  "P c \<Longrightarrow> split_where P (a @ c # b) = split_where P a @ split_where P b"
proof (induction a)
  case Nil
  then show ?case by simp
next
  case (Cons x a)
  then show ?case
    using split_where_nonempty[of P a] by (auto split: list.splits)
qed

lemma split_where_or:
  "split_where (\<lambda>c. P c \<or> Q c) s = concat (map (split_where Q) (split_where P s))"
proof (induction s)
  case Nil
  then show ?case by simp
next
  case (Cons c s)
  obtain piece pieces where sp: "split_where P s = piece # pieces"
    using split_where_nonempty[of P s] by (cases "split_where P s") auto
  obtain h t where sq: "split_where Q piece = h # t"
    using split_where_nonempty[of Q piece] by (cases "split_where Q piece") auto
  show ?case
    using Cons sp sq by auto
qed

lemma split_plain: "\<forall>c \<in> set p. \<not> Q c \<Longrightarrow> split_where Q p = [p]"
  by (induction p) auto

lemma dotdot_raw:
  assumes "''..'' \<in> set (split_char (CHR ''/'') t)"
  shows "''..'' \<in> set (rawSegments t)"
proof -
  have eq: "split_where (\<lambda>c. c = CHR 0x5C \<or> c = CHR ''/'') t
      = concat (map (split_where (\<lambda>c. c = CHR 0x5C)) (split_where (\<lambda>c. c = CHR ''/'') t))"
    using split_where_or[of "\<lambda>c. c = CHR ''/''" "\<lambda>c. c = CHR 0x5C" t]
    by (simp add: disj_commute)
  have "split_where (\<lambda>c. c = CHR 0x5C) ''..'' = [''..'']"
    by (rule split_plain) simp
  with assms have "''..'' \<in> set (concat (map (split_where (\<lambda>c. c = CHR 0x5C)) (split_where (\<lambda>c. c = CHR ''/'') t)))"
    by (force simp: split_char_def)
  then show ?thesis
    by (simp add: rawSegments_def eq)
qed

lemma norm_segs_append:
  "norm_segs up res (xs @ ys) = norm_segs up (norm_segs up res xs) ys"
  by (induction xs arbitrary: res) auto

lemma norm_segs_plain:
  "''..'' \<notin> set ys \<Longrightarrow> norm_segs up res ys = res @ filter (\<lambda>s. s \<noteq> [] \<and> s \<noteq> ''.'') ys"
  by (induction ys arbitrary: res) auto

lemma resolve_base:
  assumes "isAbsolute baseDir"
  shows "resolve cwd [baseDir] = ''/'' @ join ''/'' (base_segments baseDir)"
proof -
  from assms have ne: "baseDir \<noteq> []" by (auto simp: isAbsolute_def)
  have "split_char (CHR ''/'') (baseDir @ ''/'') = split_char (CHR ''/'') baseDir @ [[]]"
    using split_where_sep[of "\<lambda>x. x = CHR ''/''" "CHR ''/''" baseDir "[]"]
    by (simp add: split_char_def)
  then show ?thesis
    using assms ne
    by (simp add: resolve_def normalizeString_def base_segments_def norm_segs_append)
qed

lemma resolve_under_base:
  assumes "isAbsolute baseDir" "\<not> isAbsolute t" "t \<noteq> []" "''..'' \<notin> set (split_char (CHR ''/'') t)"
  shows "resolve cwd [baseDir, t] = ''/'' @ join ''/'' (base_segments baseDir @ plain_segments t)"
proof -
  from assms have ne: "baseDir \<noteq> []" by (auto simp: isAbsolute_def)
  have "split_char (CHR ''/'') (baseDir @ ''/'' @ t @ ''/'')
      = split_char (CHR ''/'') baseDir @ split_char (CHR ''/'') t @ [[]]"
    using split_where_sep[of "\<lambda>x. x = CHR ''/''" "CHR ''/''" baseDir "t @ ''/''"]
      split_where_sep[of "\<lambda>x. x = CHR ''/''" "CHR ''/''" t "[]"]
    by (simp add: split_char_def)
  then show ?thesis
    using assms ne
    by (simp add: resolve_def normalizeString_def base_segments_def plain_segments_def
        norm_segs_append norm_segs_plain)
qed

lemma normalize_absolute: "isAbsolute p \<Longrightarrow> isAbsolute (normalize p)"
  by (auto simp: normalize_def isAbsolute_def Let_def split: list.splits)

text \<open>
  Claim C8, as stated, has \<^verbatim>\<open>resolveSafePath\<close> reject absolute inputs that escape the
  base directory. The source checks the relative form only when the input is not
  absolute: with base \<^verbatim>\<open>/srv/app\<close> the input \<^verbatim>\<open>/etc/passwd\<close> is returned as it is,
  although its relative form from the base starts with \<^verbatim>\<open>..\<close>.
\<close>

theorem resolveSafePath_absolute_counterexample:
  "resolveSafePath ''/srv/app'' ''/srv/app'' ''/etc/passwd'' = Some ''/etc/passwd'' \<and>
   relative ''/srv/app'' ''/srv/app'' ''/etc/passwd'' = ''../../etc/passwd''"
  by code_simp

text \<open>
  Claim C8, amended. \<^verbatim>\<open>resolveSafePath\<close> returns null for an input that contains a
  NUL byte and for an input with a \<^verbatim>\<open>..\<close> segment, such as
  \<^verbatim>\<open>../../etc/passwd\<close>. For every accepted relative input the returned path lies under
  the base directory: its relative form from the base is not \<^verbatim>\<open>..\<close> and does not
  start with \<^verbatim>\<open>../\<close>, and when the base is absolute the path is the resolved base
  followed by the input's own segments, none of which is \<^verbatim>\<open>..\<close>. An absolute
  input of at most 4096 characters with no NUL byte and no \<^verbatim>\<open>..\<close> segment is
  accepted, and an accepted absolute input is returned normalised, wherever it points.
\<close>

theorem resolveSafePath_safety:
  "(CHR 0x00 \<in> set inputPath \<longrightarrow> resolveSafePath cwd baseDir inputPath = None) \<and>
   (''..'' \<in> set (rawSegments (trim inputPath)) \<longrightarrow> resolveSafePath cwd baseDir inputPath = None) \<and>
   resolveSafePath cwd baseDir ''../../etc/passwd'' = None \<and>
   (resolveSafePath cwd baseDir inputPath = Some r \<and> \<not> isAbsolute (trim inputPath) \<longrightarrow>
      relative cwd baseDir r \<noteq> ''..'' \<and> \<not> startsWith (relative cwd baseDir r) ''../'' \<and>
      ''..'' \<notin> set (plain_segments (trim inputPath)) \<and>
      (isAbsolute baseDir \<longrightarrow>
         resolve cwd [baseDir] = ''/'' @ join ''/'' (base_segments baseDir) \<and>
         r = ''/'' @ join ''/'' (base_segments baseDir @ plain_segments (trim inputPath)))) \<and>
   (resolveSafePath cwd baseDir inputPath = Some r \<and> isAbsolute (trim inputPath) \<longrightarrow>
      r = normalize (trim inputPath)) \<and>
   (isAbsolute (trim inputPath) \<and> length (trim inputPath) \<le> 4096 \<and>
    CHR 0x00 \<notin> set (trim inputPath) \<and> ''..'' \<notin> set (rawSegments (trim inputPath)) \<longrightarrow>
      resolveSafePath cwd baseDir inputPath = Some (normalize (trim inputPath)))"
proof (intro conjI impI)
  assume "CHR 0x00 \<in> set inputPath"
  moreover have "\<not> is_space (CHR 0x00)" by (simp add: is_space_def)
  ultimately have "CHR 0x00 \<in> set (trim inputPath)" by (rule trim_keeps)
  then show "resolveSafePath cwd baseDir inputPath = None"
    by (simp add: resolveSafePath_def Let_def)
next
  assume "''..'' \<in> set (rawSegments (trim inputPath))"
  then show "resolveSafePath cwd baseDir inputPath = None"
    by (simp add: resolveSafePath_def Let_def)
next
  have "trim ''../../etc/passwd'' = ''../../etc/passwd''"
    by (simp add: trim_def is_space_def)
  moreover have "''..'' \<in> set (rawSegments ''../../etc/passwd'')"
    by (simp add: rawSegments_def)
  ultimately show "resolveSafePath cwd baseDir ''../../etc/passwd'' = None"
    by (simp add: resolveSafePath_def Let_def)
next
  assume a: "resolveSafePath cwd baseDir inputPath = Some r \<and> \<not> isAbsolute (trim inputPath)"
  let ?t = "trim inputPath"
  from a have r: "r = resolve cwd [baseDir, ?t]"
    by (auto simp: resolveSafePath_def Let_def split: if_splits)
  from a have raw: "''..'' \<notin> set (rawSegments ?t)" and ne: "?t \<noteq> []"
    by (auto simp: resolveSafePath_def Let_def split: if_splits)
  from raw have nodots: "''..'' \<notin> set (split_char (CHR ''/'') ?t)"
    using dotdot_raw by blast
  from a show "relative cwd baseDir r \<noteq> ''..''"
    by (auto simp: resolveSafePath_def Let_def split: if_splits)
  from a show "\<not> startsWith (relative cwd baseDir r) ''../''"
    by (auto simp: resolveSafePath_def Let_def sep_def split: if_splits)
  from nodots show "''..'' \<notin> set (plain_segments ?t)"
    by (simp add: plain_segments_def)
  assume abs: "isAbsolute baseDir"
  then show "resolve cwd [baseDir] = ''/'' @ join ''/'' (base_segments baseDir)"
    by (rule resolve_base)
  from a abs ne nodots show "r = ''/'' @ join ''/'' (base_segments baseDir @ plain_segments ?t)"
    unfolding r by (intro resolve_under_base) simp_all
next
  assume "resolveSafePath cwd baseDir inputPath = Some r \<and> isAbsolute (trim inputPath)"
  then show "r = normalize (trim inputPath)"
    by (auto simp: resolveSafePath_def Let_def split: if_splits)
next
  assume a: "isAbsolute (trim inputPath) \<and> length (trim inputPath) \<le> 4096 \<and>
    CHR 0x00 \<notin> set (trim inputPath) \<and> ''..'' \<notin> set (rawSegments (trim inputPath))"
  then have "trim inputPath \<noteq> []" by (auto simp: isAbsolute_def)
  moreover from a have "isAbsolute (normalize (trim inputPath))" by (simp add: normalize_absolute)
  ultimately show "resolveSafePath cwd baseDir inputPath = Some (normalize (trim inputPath))"
    using a by (simp add: resolveSafePath_def Let_def)
qed

theorem resolveSafePath_safety_witness:
  "resolveSafePath ''/srv/app'' ''/srv/app'' (''a'' @ [CHR 0x00]) = None \<and>
   resolveSafePath ''/srv/app'' ''/srv/app'' ''sub/../../x'' = None \<and>
   resolveSafePath ''/srv/app'' ''/srv/app'' ''sub/dir/file'' = Some ''/srv/app/sub/dir/file'' \<and>
   relative ''/srv/app'' ''/srv/app'' ''/srv/app/sub/dir/file'' = ''sub/dir/file'' \<and>
   ''/srv/app/sub/dir/file'' = ''/'' @ join ''/'' (base_segments ''/srv/app'' @ plain_segments (trim ''sub/dir/file'')) \<and>
   resolveSafePath ''/srv/app'' ''/srv/app'' ''/srv//app/./config.json'' = Some ''/srv/app/config.json'' \<and>
   resolveSafePath ''/srv/app'' ''/srv/app'' ''/srv//app/./config.json'' =
     Some (normalize (trim ''/srv//app/./config.json''))"
proof -
  have acc: "resolveSafePath ''/srv/app'' ''/srv/app'' ''sub/dir/file'' = Some ''/srv/app/sub/dir/file''"
    by code_simp
  have rel: "\<not> isAbsolute (trim ''sub/dir/file'')" "isAbsolute ''/srv/app''"
    by code_simp+
  have nul: "CHR 0x00 \<in> set (''a'' @ [CHR 0x00])" by simp
  have dd: "''..'' \<in> set (rawSegments (trim ''sub/../../x''))" by code_simp
  have ab: "resolveSafePath ''/srv/app'' ''/srv/app'' ''/srv//app/./config.json'' = Some ''/srv/app/config.json''"
    "isAbsolute (trim ''/srv//app/./config.json'')"
    by code_simp+
  have relv: "relative ''/srv/app'' ''/srv/app'' ''/srv/app/sub/dir/file'' = ''sub/dir/file''"
    by code_simp
  from resolveSafePath_safety[of "''a'' @ [CHR 0x00]" "''/srv/app''" "''/srv/app''" "''x''"] nul
  have 1: "resolveSafePath ''/srv/app'' ''/srv/app'' (''a'' @ [CHR 0x00]) = None" by blast
  from resolveSafePath_safety[of "''sub/../../x''" "''/srv/app''" "''/srv/app''" "''x''"] dd
  have 2: "resolveSafePath ''/srv/app'' ''/srv/app'' ''sub/../../x'' = None" by blast
  from resolveSafePath_safety[of "''sub/dir/file''" "''/srv/app''" "''/srv/app''" "''/srv/app/sub/dir/file''"] acc rel
  have 3: "''/srv/app/sub/dir/file'' = ''/'' @ join ''/'' (base_segments ''/srv/app'' @ plain_segments (trim ''sub/dir/file''))"
    by blast
  have ok: "length (trim ''/srv//app/./config.json'') \<le> 4096"
    "CHR 0x00 \<notin> set (trim ''/srv//app/./config.json'')"
    "''..'' \<notin> set (rawSegments (trim ''/srv//app/./config.json''))"
    by code_simp+
  from resolveSafePath_safety[of "''/srv//app/./config.json''" "''/srv/app''" "''/srv/app''" "''x''"] ab(2) ok
  have 4: "resolveSafePath ''/srv/app'' ''/srv/app'' ''/srv//app/./config.json'' =
     Some (normalize (trim ''/srv//app/./config.json''))"
    by blast
  from 1 2 3 4 acc ab(1) relv show ?thesis by (intro conjI)
qed

section \<open>Properties of the cache\<close>

subsection \<open>Decoding what was encoded\<close>

lemma b64_value_char: "n < 64 \<Longrightarrow> b64_value (b64_char n) = Some n"
  by (auto simp: b64_char_def b64_value_def Let_def)

lemma b64_value_pad: "b64_value (CHR ''='') = None"
  by (simp add: b64_value_def)

lemma div_pack: "k < n \<Longrightarrow> (m * n + k) div n = (m::nat)"
  by simp

lemma mod_pack: "k < n \<Longrightarrow> (m * n + k) mod n = (k::nat)"
  by simp

lemma pack_bound: "p < 4 \<Longrightarrow> q < 16 \<Longrightarrow> p * 16 + q < (64::nat)"
  by linarith

lemma pack_bound': "q < 16 \<Longrightarrow> r < 4 \<Longrightarrow> q * 4 + r < (64::nat)"
  by linarith

lemma div16_small: "y < 256 \<Longrightarrow> y div 16 < (16::nat)"
proof -
  assume "y < 256"
  then have "y < 16 * 16" by simp
  then show "y div 16 < 16" by (rule less_mult_imp_div_less)
qed

lemma div64_small: "z < 256 \<Longrightarrow> z div 64 < (4::nat)"
proof -
  assume "z < 256"
  then have "z < 4 * 64" by simp
  then show "z div 64 < 4" by (rule less_mult_imp_div_less)
qed

lemma div4_small: "x < 256 \<Longrightarrow> x div 4 < (64::nat)"
proof -
  assume "x < 256"
  then have "x < 64 * 4" by simp
  then show "x div 4 < 64" by (rule less_mult_imp_div_less)
qed

lemma sextet2: "y < 256 \<Longrightarrow> (x mod 4) * 16 + y div 16 < (64::nat)"
  by (rule pack_bound[OF _ div16_small]) simp_all

lemma sextet3: "z < 256 \<Longrightarrow> (y mod 16) * 4 + z div 64 < (64::nat)"
  by (rule pack_bound'[OF _ div64_small]) simp_all

lemma byte1: "y < 256 \<Longrightarrow> x div 4 * 4 + ((x mod 4) * 16 + y div 16) div 16 = (x::nat)"
  by (simp only: div_pack[OF div16_small] div_mult_mod_eq)

lemma byte2:
  "y < 256 \<Longrightarrow> z < 256 \<Longrightarrow>
   (((x mod 4) * 16 + y div 16) mod 16) * 16 + ((y mod 16) * 4 + z div 64) div 4 = (y::nat)"
  by (simp only: mod_pack[OF div16_small] div_pack[OF div64_small] div_mult_mod_eq)

lemma byte3: "z < 256 \<Longrightarrow> (((y mod 16) * 4 + z div 64) mod 4) * 64 + z mod 64 = (z::nat)"
  by (simp only: mod_pack[OF div64_small] div_mult_mod_eq)

lemma byte1_last: "x div 4 * 4 + ((x mod 4) * 16) div 16 = (x::nat)"
  by (simp only: nonzero_mult_div_cancel_right div_mult_mod_eq)

lemma byte2_last:
  "y < 256 \<Longrightarrow> (((x mod 4) * 16 + y div 16) mod 16) * 16 + ((y mod 16) * 4) div 4 = (y::nat)"
  by (simp only: mod_pack[OF div16_small] div_mult_mod_eq nonzero_mult_div_cancel_right)

lemma sextet2_last: "(x mod 4) * 16 < (64::nat)"
  using pack_bound[of "x mod 4" 0] by simp

lemma sextet3_last: "(y mod 16) * 4 < (64::nat)"
  using pack_bound'[of "y mod 16" 0] by simp

lemma from_to_base64: "from_base64 (to_base64 buf) = buf"
proof (induction buf rule: to_base64.induct)
  case 1
  show ?case by simp
next
  case (2 a)
  define x where "x = (of_char a :: nat)"
  have xy: "x < 256" by (simp add: x_def)
  have v: "b64_value (b64_char (x div 4)) = Some (x div 4)"
    "b64_value (b64_char ((x mod 4) * 16)) = Some ((x mod 4) * 16)"
    by (rule b64_value_char, rule div4_small[OF xy], rule b64_value_char, rule sextet2_last)
  have c: "char_of x = a" by (simp add: x_def)
  have enc: "to_base64 [a] = [b64_char (x div 4), b64_char ((x mod 4) * 16), CHR ''='', CHR ''='']"
    by (simp only: to_base64.simps Let_def x_def)
  show ?case
    unfolding enc
    by (simp only: from_base64.simps v b64_value_pad prod.case option.case byte1_last c)
next
  case (3 a b)
  define x y where "x = (of_char a :: nat)" and "y = (of_char b :: nat)"
  have xy: "x < 256" "y < 256" by (simp_all add: x_def y_def)
  have v: "b64_value (b64_char (x div 4)) = Some (x div 4)"
    "b64_value (b64_char ((x mod 4) * 16 + y div 16)) = Some ((x mod 4) * 16 + y div 16)"
    "b64_value (b64_char ((y mod 16) * 4)) = Some ((y mod 16) * 4)"
    by (rule b64_value_char, rule div4_small[OF xy(1)], rule b64_value_char,
        rule sextet2[OF xy(2)], rule b64_value_char, rule sextet3_last)
  have c: "char_of x = a" "char_of y = b" by (simp_all add: x_def y_def)
  have enc: "to_base64 [a, b] = [b64_char (x div 4), b64_char ((x mod 4) * 16 + y div 16),
          b64_char ((y mod 16) * 4), CHR ''='']"
    by (simp only: to_base64.simps Let_def x_def y_def)
  show ?case
    unfolding enc
    by (simp only: from_base64.simps v b64_value_pad prod.case option.case
        byte1[OF xy(2)] byte2_last[OF xy(2)] c)
next
  case (4 a b c rest)
  define x y z where "x = (of_char a :: nat)" and "y = (of_char b :: nat)" and "z = (of_char c :: nat)"
  have xy: "x < 256" "y < 256" "z < 256" by (simp_all add: x_def y_def z_def)
  have r4: "z mod 64 < 64" by simp
  have v: "b64_value (b64_char (x div 4)) = Some (x div 4)"
    "b64_value (b64_char ((x mod 4) * 16 + y div 16)) = Some ((x mod 4) * 16 + y div 16)"
    "b64_value (b64_char ((y mod 16) * 4 + z div 64)) = Some ((y mod 16) * 4 + z div 64)"
    "b64_value (b64_char (z mod 64)) = Some (z mod 64)"
    by (rule b64_value_char, rule div4_small[OF xy(1)], rule b64_value_char,
        rule sextet2[OF xy(2)], rule b64_value_char, rule sextet3[OF xy(3)],
        rule b64_value_char, rule r4)
  have c: "char_of x = a" "char_of y = b" "char_of z = c" by (simp_all add: x_def y_def z_def)
  have enc: "to_base64 (a # b # c # rest) = [b64_char (x div 4), b64_char ((x mod 4) * 16 + y div 16),
          b64_char ((y mod 16) * 4 + z div 64), b64_char (z mod 64)] @ to_base64 rest"
    by (simp only: to_base64.simps Let_def x_def y_def z_def)
  show ?case
    unfolding enc
    by (simp only: append.simps from_base64.simps v prod.case option.case
        byte1[OF xy(2)] byte2[OF xy(2) xy(3)] byte3[OF xy(3)] c "4.IH")
qed

subsection \<open>Entries and their checksums\<close>

lemma cache_set_ok:
  "checksums_ok H fs \<Longrightarrow> checksums_ok H (cache_set H cwd t w fs cm k b)"
  by (auto simp: checksums_ok_def cache_set_def Let_def from_to_base64)

lemma cache_clear_ok:
  "checksums_ok H fs \<Longrightarrow> checksums_ok H (cache_clear H cwd w fs cm k)"
  by (auto simp: checksums_ok_def cache_clear_def Let_def)

lemma run_cache_ok:
  "checksums_ok H fs \<Longrightarrow> checksums_ok H (run_cache H cwd cm fs ops)"
proof (induction ops arbitrary: fs)
  case Nil
  then show ?case by simp
next
  case (Cons op ops)
  then show ?case
    by (cases op) (simp_all add: cache_set_ok cache_clear_ok)
qed

text \<open>
  Claim C5. For every key \<open>k\<close> and payload \<open>b\<close>: when \<^verbatim>\<open>set(k, b)\<close> has written its
  file, a \<^verbatim>\<open>get(k)\<close> within the time to live returns exactly \<open>b\<close>, and
  \<^verbatim>\<open>checksum(k)\<close> returns the digest of \<open>b\<close>, computed from the payload by
  \<^verbatim>\<open>set\<close>; a \<^verbatim>\<open>get(k)\<close> after the time to live has elapsed
  (\<open>now - stored_at > ttl * 1000\<close>) returns absent although the file is still
  there; and in every cache directory written through the manager, the checksum of a
  live entry is the digest of the bytes that \<^verbatim>\<open>get\<close> returns for it.
\<close>

theorem cache_roundtrip_expiry_checksum:
  "(t' - t \<le> manager_ttl cm * 1000 \<longrightarrow>
      cache_get H cwd t' (cache_set H cwd t True fs cm k b) cm k = Some b \<and>
      getChecksum H cwd t' (cache_set H cwd t True fs cm k b) cm k = Some (H b)) \<and>
   (t' - t > manager_ttl cm * 1000 \<longrightarrow>
      cache_get H cwd t' (cache_set H cwd t True fs cm k b) cm k = None \<and>
      cache_set H cwd t True fs cm k b (getCachePath H cwd cm k) \<noteq> None) \<and>
   (cache_get H cwd t' (run_cache H cwd cm Map.empty ops) cm k = Some d \<longrightarrow>
      getChecksum H cwd t' (run_cache H cwd cm Map.empty ops) cm k = Some (H d))"
proof (intro conjI impI)
  assume "t' - t \<le> manager_ttl cm * 1000"
  then show "cache_get H cwd t' (cache_set H cwd t True fs cm k b) cm k = Some b"
    and "getChecksum H cwd t' (cache_set H cwd t True fs cm k b) cm k = Some (H b)"
    by (simp_all add: cache_get_def getChecksum_def cache_set_def Let_def from_to_base64)
next
  assume "t' - t > manager_ttl cm * 1000"
  then show "cache_get H cwd t' (cache_set H cwd t True fs cm k b) cm k = None"
    by (simp add: cache_get_def cache_set_def Let_def)
  show "cache_set H cwd t True fs cm k b (getCachePath H cwd cm k) \<noteq> None"
    by (simp add: cache_set_def Let_def)
next
  let ?fs = "run_cache H cwd cm Map.empty ops"
  assume g: "cache_get H cwd t' ?fs cm k = Some d"
  have "checksums_ok H Map.empty" by (simp add: checksums_ok_def)
  then have ok: "checksums_ok H ?fs" by (rule run_cache_ok)
  from g obtain e where e: "?fs (getCachePath H cwd cm k) = Some (Entry e)"
    and live: "\<not> t' - timestamp e > ttl e * 1000" and d: "d = from_base64 (data e)"
    by (auto simp: cache_get_def split: option.splits file_content.splits if_splits)
  from ok e have "checksum e = H d"
    unfolding d checksums_ok_def by blast
  with e live show "getChecksum H cwd t' ?fs cm k = Some (H d)"
    by (simp add: getChecksum_def)
qed

theorem cache_roundtrip_expiry_checksum_witness:
  "cache_get rev ''/srv/app'' 1500
     (cache_set rev ''/srv/app'' 1000 True Map.empty \<lparr>cacheDir = ''cache'', manager_ttl = 3600\<rparr> ''asset:acme:tool:v1:a.bin'' ''bytes'')
     \<lparr>cacheDir = ''cache'', manager_ttl = 3600\<rparr> ''asset:acme:tool:v1:a.bin'' = Some ''bytes'' \<and>
   cache_get rev ''/srv/app'' 3601001
     (cache_set rev ''/srv/app'' 1000 True Map.empty \<lparr>cacheDir = ''cache'', manager_ttl = 3600\<rparr> ''asset:acme:tool:v1:a.bin'' ''bytes'')
     \<lparr>cacheDir = ''cache'', manager_ttl = 3600\<rparr> ''asset:acme:tool:v1:a.bin'' = None \<and>
   getChecksum rev ''/srv/app'' 2000
     (run_cache rev ''/srv/app'' \<lparr>cacheDir = ''cache'', manager_ttl = 3600\<rparr> Map.empty
        [SetOp ''k'' ''old'' 1000 True, ClearOp ''k'' True, SetOp ''k'' ''new'' 1500 True])
     \<lparr>cacheDir = ''cache'', manager_ttl = 3600\<rparr> ''k'' = Some (rev ''new'')"
proof -
  let ?cm = "\<lparr>cacheDir = ''cache'', manager_ttl = 3600\<rparr>"
  let ?ops = "[SetOp ''k'' ''old'' 1000 True, ClearOp ''k'' True, SetOp ''k'' ''new'' 1500 True]"
  have g: "cache_get rev ''/srv/app'' 2000 (run_cache rev ''/srv/app'' ?cm Map.empty ?ops) ?cm ''k'' = Some ''new''"
    by (simp add: cache_get_def cache_set_def cache_clear_def Let_def from_to_base64
        del: to_base64.simps)
  from cache_roundtrip_expiry_checksum[of 1500 1000 ?cm rev "''/srv/app''" Map.empty "''asset:acme:tool:v1:a.bin''" "''bytes''" ?ops "''x''"]
  have 1: "cache_get rev ''/srv/app'' 1500
     (cache_set rev ''/srv/app'' 1000 True Map.empty ?cm ''asset:acme:tool:v1:a.bin'' ''bytes'')
     ?cm ''asset:acme:tool:v1:a.bin'' = Some ''bytes''"
    by simp
  from cache_roundtrip_expiry_checksum[of 3601001 1000 ?cm rev "''/srv/app''" Map.empty "''asset:acme:tool:v1:a.bin''" "''bytes''" ?ops "''x''"]
  have 2: "cache_get rev ''/srv/app'' 3601001
     (cache_set rev ''/srv/app'' 1000 True Map.empty ?cm ''asset:acme:tool:v1:a.bin'' ''bytes'')
     ?cm ''asset:acme:tool:v1:a.bin'' = None"
    by simp
  from cache_roundtrip_expiry_checksum[of 2000 1000 ?cm rev "''/srv/app''" Map.empty "''k''" "''bytes''" ?ops "''new''"] g
  have 3: "getChecksum rev ''/srv/app'' 2000 (run_cache rev ''/srv/app'' ?cm Map.empty ?ops) ?cm ''k'' = Some (rev ''new'')"
    by blast
  from 1 2 3 show ?thesis by blast
qed

section \<open>Properties of the request pipeline\<close>

subsection \<open>Unauthenticated requests\<close>

lemma rate_limit_consumes:
  "rate_limit clk m key =
     (fst (consumeInternal 60 (t_consume clk) m key),
      allowed (snd (consumeInternal 60 (t_consume clk) m key)),
      snd (snd (rate_limit clk m key)))"
  by (simp add: rate_limit_def isAllowed_def rateLimitLimit_def split_beta Let_def)

lemma unauthenticated_result:
  "unauthenticated srv clk hs action resource st =
     (let anonId = ''anon:'' @ parseForwardedFor (is_ip srv) (map_of hs ''x-forwarded-for'');
          r = consumeInternal 60 (t_consume clk) (limiter st) anonId;
          rl = snd (snd (rate_limit clk (limiter st) anonId))
      in if allowed (snd r)
         then (\<lparr>status = 401, resp_headers = rl, resp_body = JsonError ''Unauthorized''\<rparr>,
               [logAction (t_audit clk) ''unknown'' action resource Failure None],
               st\<lparr>limiter := fst r\<rparr>)
         else (\<lparr>status = 429, resp_headers = rl, resp_body = JsonError ''Rate limited''\<rparr>, [],
               st\<lparr>limiter := fst r\<rparr>))"
  unfolding unauthenticated_def Let_def
  by (subst rate_limit_consumes) (simp add: split_beta)

text \<open>
  Claim C4. When the request is valid and authentication returns no device, both routes
  consume the anonymous key \<^verbatim>\<open>anon:<ip>\<close> of the limiter, with the address taken
  from the forwarded-for header, and answer 401 Unauthorized, unless that key is over
  its limit: then they answer 429 Rate limited. Where a denial by the limiter and a
  failed authentication meet, the answer is the limiter's.
\<close>

theorem unauthenticated_rate_limit_precedence:
  "(validateOwnerRepo owner_param \<noteq> None \<and> validateOwnerRepo repo_param \<noteq> None \<and>
    authenticate srv (collectValidatedHeaders raw_headers) = Returned None \<longrightarrow>
      (let anonId = ''anon:'' @ parseForwardedFor (is_ip srv)
                       (map_of (collectValidatedHeaders raw_headers) ''x-forwarded-for'');
           r = consumeInternal 60 (t_consume clk) (limiter st) anonId;
           (resp, recs, st') = releases_route srv clk owner_param repo_param raw_headers st
       in limiter st' = fst r \<and>
          status resp = (if allowed (snd r) then 401 else 429) \<and>
          resp_body resp = JsonError (if allowed (snd r) then ''Unauthorized'' else ''Rate limited''))) \<and>
   (validateOwnerRepo owner_param \<noteq> None \<and> validateOwnerRepo repo_param \<noteq> None \<and>
    validateVersion version_param \<noteq> None \<and> validateAssetName asset_param \<noteq> None \<and>
    authenticate srv (collectValidatedHeaders raw_headers) = Returned None \<longrightarrow>
      (let anonId = ''anon:'' @ parseForwardedFor (is_ip srv)
                       (map_of (collectValidatedHeaders raw_headers) ''x-forwarded-for'');
           r = consumeInternal 60 (t_consume clk) (limiter st) anonId;
           (resp, recs, st') =
             release_route srv clk owner_param repo_param version_param asset_param raw_headers st
       in limiter st' = fst r \<and>
          status resp = (if allowed (snd r) then 401 else 429) \<and>
          resp_body resp = JsonError (if allowed (snd r) then ''Unauthorized'' else ''Rate limited'')))"
proof (intro conjI impI)
  assume "validateOwnerRepo owner_param \<noteq> None \<and> validateOwnerRepo repo_param \<noteq> None \<and>
    authenticate srv (collectValidatedHeaders raw_headers) = Returned None"
  then obtain owner repo where "validateOwnerRepo owner_param = Some owner"
    "validateOwnerRepo repo_param = Some repo"
    "authenticate srv (collectValidatedHeaders raw_headers) = Returned None"
    by auto
  then have "releases_route srv clk owner_param repo_param raw_headers st =
      unauthenticated srv clk (collectValidatedHeaders raw_headers) ''list_releases''
        (owner @ ''/'' @ repo) st"
    by (simp add: releases_route_def Let_def)
  then show "let anonId = ''anon:'' @ parseForwardedFor (is_ip srv)
                       (map_of (collectValidatedHeaders raw_headers) ''x-forwarded-for'');
           r = consumeInternal 60 (t_consume clk) (limiter st) anonId;
           (resp, recs, st') = releases_route srv clk owner_param repo_param raw_headers st
       in limiter st' = fst r \<and>
          status resp = (if allowed (snd r) then 401 else 429) \<and>
          resp_body resp = JsonError (if allowed (snd r) then ''Unauthorized'' else ''Rate limited'')"
    by (simp add: unauthenticated_result Let_def)
next
  assume "validateOwnerRepo owner_param \<noteq> None \<and> validateOwnerRepo repo_param \<noteq> None \<and>
    validateVersion version_param \<noteq> None \<and> validateAssetName asset_param \<noteq> None \<and>
    authenticate srv (collectValidatedHeaders raw_headers) = Returned None"
  then obtain owner repo version assetName where "validateOwnerRepo owner_param = Some owner"
    "validateOwnerRepo repo_param = Some repo" "validateVersion version_param = Some version"
    "validateAssetName asset_param = Some assetName"
    "authenticate srv (collectValidatedHeaders raw_headers) = Returned None"
    by auto
  then have "release_route srv clk owner_param repo_param version_param asset_param raw_headers st =
      unauthenticated srv clk (collectValidatedHeaders raw_headers) ''download_asset''
        (owner @ ''/'' @ repo @ ''/'' @ version @ ''/'' @ assetName) st"
    by (simp add: release_route_def Let_def)
  then show "let anonId = ''anon:'' @ parseForwardedFor (is_ip srv)
                       (map_of (collectValidatedHeaders raw_headers) ''x-forwarded-for'');
           r = consumeInternal 60 (t_consume clk) (limiter st) anonId;
           (resp, recs, st') =
             release_route srv clk owner_param repo_param version_param asset_param raw_headers st
       in limiter st' = fst r \<and>
          status resp = (if allowed (snd r) then 401 else 429) \<and>
          resp_body resp = JsonError (if allowed (snd r) then ''Unauthorized'' else ''Rate limited'')"
    by (simp add: unauthenticated_result Let_def)
qed

theorem unauthenticated_rate_limit_precedence_witness:
  "(let anonId = ''anon:'' @ parseForwardedFor (is_ip (example_server None))
                       (map_of (collectValidatedHeaders [(''X-Forwarded-For'', ''10.0.0.1'')]) ''x-forwarded-for'');
        r = consumeInternal 60 (t_consume example_clock) (limiter busy_state) anonId;
        (resp, recs, st') = releases_route (example_server None) example_clock ''acme'' ''tool''
                              [(''X-Forwarded-For'', ''10.0.0.1'')] busy_state
    in limiter st' = fst r \<and>
       status resp = (if allowed (snd r) then 401 else 429) \<and>
       resp_body resp = JsonError (if allowed (snd r) then ''Unauthorized'' else ''Rate limited'')) \<and>
   status (fst (releases_route (example_server None) example_clock ''acme'' ''tool''
                  [(''X-Forwarded-For'', ''10.0.0.1'')] busy_state)) = 429 \<and>
   status (fst (releases_route (example_server None) example_clock ''acme'' ''tool''
                  [(''X-Forwarded-For'', ''10.0.0.1'')] empty_state)) = 401 \<and>
   status (fst (release_route (example_server None) example_clock ''acme'' ''tool'' ''v1.0.0''
                  ''tool.tar.gz'' [(''X-Forwarded-For'', ''10.0.0.1'')] busy_state)) = 429"
proof -
  have v: "validateOwnerRepo ''acme'' \<noteq> None \<and> validateOwnerRepo ''tool'' \<noteq> None \<and>
      authenticate (example_server None) (collectValidatedHeaders [(''X-Forwarded-For'', ''10.0.0.1'')])
        = Returned None"
    by code_simp
  have e: "status (fst (releases_route (example_server None) example_clock ''acme'' ''tool''
                  [(''X-Forwarded-For'', ''10.0.0.1'')] busy_state)) = 429"
    "status (fst (releases_route (example_server None) example_clock ''acme'' ''tool''
                  [(''X-Forwarded-For'', ''10.0.0.1'')] empty_state)) = 401"
    "status (fst (release_route (example_server None) example_clock ''acme'' ''tool'' ''v1.0.0''
                  ''tool.tar.gz'' [(''X-Forwarded-For'', ''10.0.0.1'')] busy_state)) = 429"
    by code_simp+
  from unauthenticated_rate_limit_precedence[of "''acme''" "''tool''" "example_server None"
      "[(''X-Forwarded-For'', ''10.0.0.1'')]" example_clock busy_state "''v1.0.0''" "''tool.tar.gz''"] v e
  show ?thesis by blast
qed

subsection \<open>Audit records\<close>

lemma unauthenticated_audit:
  assumes "unauthenticated srv clk hs action resource st = (resp, recs, st')" "status resp \<noteq> 429"
  shows "audited_once None action resource resp recs"
  using assms
  by (auto simp: unauthenticated_result Let_def audited_once_def logAction_def split: if_splits)

lemma releases_route_audit:
  assumes "validateOwnerRepo owner_param = Some owner" "validateOwnerRepo repo_param = Some repo"
    "authenticate srv (collectValidatedHeaders raw_headers) = Returned d"
    "releases_route srv clk owner_param repo_param raw_headers st = (resp, recs, st')"
    "d \<noteq> None \<or> status resp \<noteq> 429"
  shows "audited_once d ''list_releases'' (owner @ ''/'' @ repo) resp recs"
proof (cases d)
  case None
  with assms show ?thesis
    by (auto simp: releases_route_def Let_def intro: unauthenticated_audit)
next
  case (Some device)
  with assms(1-4) show ?thesis
    by (auto simp: releases_route_def Let_def audited_once_def logAction_def onError_def
        RateLimitError_def split: prod.splits if_splits option.splits)
qed

lemma signature_header_throws:
  "signature_header srv buf = Inl err \<Longrightarrow> err = OtherError"
  by (auto simp: signature_header_def split: option.splits)

text \<open>
  Every exit of the two handlers that is reached after validation and authentication,
  except the anonymous 429, makes exactly one audit record before it returns or throws:
  the 401, the 429 of an authenticated device (before \<^verbatim>\<open>RateLimitError\<close> is thrown),
  the cache hit, the 404s, the failed download (before \<^verbatim>\<open>ExternalServiceError\<close> is
  thrown) and the 200. Only a signer that throws (a 500) leaves the asset route
  without a record.
\<close>

lemma release_route_audit:
  assumes "validateOwnerRepo owner_param = Some owner" "validateOwnerRepo repo_param = Some repo"
    "validateVersion version_param = Some version" "validateAssetName asset_param = Some assetName"
    "authenticate srv (collectValidatedHeaders raw_headers) = Returned d"
    "release_route srv clk owner_param repo_param version_param asset_param raw_headers st = (resp, recs, st')"
    "d \<noteq> None \<or> status resp \<noteq> 429" "status resp \<noteq> 500"
  shows "audited_once d ''download_asset'' (owner @ ''/'' @ repo @ ''/'' @ version @ ''/'' @ assetName) resp recs"
proof (cases d)
  case None
  with assms show ?thesis
    by (auto simp: release_route_def Let_def intro: unauthenticated_audit)
next
  case (Some device)
  from Some assms(1-6,8) show ?thesis
    by (auto simp: release_route_def Let_def audited_once_def logAction_def onError_def
        RateLimitError_def ExternalServiceError_def dest!: signature_header_throws
        split: prod.splits if_splits option.splits sum.splits)
qed

subsection \<open>The exits that make no audit record\<close>

lemma validation_failure_unaudited:
  "(validateOwnerRepo owner_param = None \<or> validateOwnerRepo repo_param = None \<longrightarrow>
      releases_route srv clk owner_param repo_param raw_headers st =
        (\<lparr>status = 400, resp_headers = [], resp_body = JsonError ''Invalid request''\<rparr>, [], st)) \<and>
   (validateOwnerRepo owner_param = None \<or> validateOwnerRepo repo_param = None \<or>
    validateVersion version_param = None \<or> validateAssetName asset_param = None \<longrightarrow>
      release_route srv clk owner_param repo_param version_param asset_param raw_headers st =
        (\<lparr>status = 400, resp_headers = [], resp_body = JsonError ''Invalid request''\<rparr>, [], st))"
  by (auto simp: releases_route_def release_route_def onError_def ValidationError_def split: option.splits)

lemma anonymous_rate_limited_unaudited:
  assumes "validateOwnerRepo owner_param \<noteq> None" "validateOwnerRepo repo_param \<noteq> None"
    "authenticate srv (collectValidatedHeaders raw_headers) = Returned None"
    "releases_route srv clk owner_param repo_param raw_headers st = (resp, recs, st')"
    "status resp = 429"
  shows "recs = []"
  using assms
  by (auto simp: releases_route_def Let_def unauthenticated_result split: if_splits)

lemma anonymous_rate_limited_unaudited_asset:
  assumes "validateOwnerRepo owner_param \<noteq> None" "validateOwnerRepo repo_param \<noteq> None"
    "validateVersion version_param \<noteq> None" "validateAssetName asset_param \<noteq> None"
    "authenticate srv (collectValidatedHeaders raw_headers) = Returned None"
    "release_route srv clk owner_param repo_param version_param asset_param raw_headers st = (resp, recs, st')"
    "status resp = 429"
  shows "recs = []"
  using assms
  by (auto simp: release_route_def Let_def unauthenticated_result split: if_splits)

text \<open>
  Claim C1 asks for exactly one audit record for every terminal outcome on both routes,
  validation failures and rate-limited requests included. Two exits of each handler make
  none. A request whose owner is \<^verbatim>\<open>bad!\<close>, or whose asset name is \<^verbatim>\<open>tool$.gz\<close>, is
  answered 400 with no record: \<^verbatim>\<open>ValidationError\<close> is thrown before anything is
  logged. An anonymous request from \<^verbatim>\<open>10.0.0.1\<close>, whose key has used up its window,
  is answered 429 with no record: that branch returns before \<^verbatim>\<open>logAction\<close>. The
  sibling exits do log: the same anonymous request under the limit is answered 401 with
  one record for the device \<^verbatim>\<open>unknown\<close>, and an authenticated device over its limit is
  answered 429 with one record of reason \<^verbatim>\<open>rate_limited\<close>.
\<close>

theorem validation_failure_and_anonymous_429_unaudited:
  "status (fst (releases_route (example_server (Some example_device)) example_clock
                  ''bad!'' ''tool'' [] empty_state)) = 400 \<and>
   fst (snd (releases_route (example_server (Some example_device)) example_clock
               ''bad!'' ''tool'' [] empty_state)) = [] \<and>
   status (fst (release_route (example_server (Some example_device)) example_clock
                  ''acme'' ''tool'' ''v1.0.0'' ''tool$.gz'' [] empty_state)) = 400 \<and>
   fst (snd (release_route (example_server (Some example_device)) example_clock
               ''acme'' ''tool'' ''v1.0.0'' ''tool$.gz'' [] empty_state)) = [] \<and>
   status (fst (releases_route (example_server None) example_clock ''acme'' ''tool''
                  [(''X-Forwarded-For'', ''10.0.0.1'')] busy_state)) = 429 \<and>
   fst (snd (releases_route (example_server None) example_clock ''acme'' ''tool''
               [(''X-Forwarded-For'', ''10.0.0.1'')] busy_state)) = [] \<and>
   status (fst (release_route (example_server None) example_clock ''acme'' ''tool'' ''v1.0.0''
                  ''tool.tar.gz'' [(''X-Forwarded-For'', ''10.0.0.1'')] busy_state)) = 429 \<and>
   fst (snd (release_route (example_server None) example_clock ''acme'' ''tool'' ''v1.0.0''
               ''tool.tar.gz'' [(''X-Forwarded-For'', ''10.0.0.1'')] busy_state)) = [] \<and>
   status (fst (releases_route (example_server None) example_clock ''acme'' ''tool''
                  [(''X-Forwarded-For'', ''10.0.0.1'')] empty_state)) = 401 \<and>
   fst (snd (releases_route (example_server None) example_clock ''acme'' ''tool''
               [(''X-Forwarded-For'', ''10.0.0.1'')] empty_state)) =
     [\<lparr>log_timestamp = 1003, log_device_id = ''unknown'', log_action = ''list_releases'',
       log_resource = ''acme/tool'', log_status = Failure, log_details = None\<rparr>] \<and>
   status (fst (releases_route (example_server (Some example_device)) example_clock ''acme'' ''tool''
                  [] busy_device_state)) = 429 \<and>
   fst (snd (releases_route (example_server (Some example_device)) example_clock ''acme'' ''tool''
               [] busy_device_state)) =
     [\<lparr>log_timestamp = 1003, log_device_id = ''laptop-1'', log_action = ''list_releases'',
       log_resource = ''acme/tool'', log_status = Failure, log_details = Some (Reason ''rate_limited'')\<rparr>]"
  by (intro conjI; code_simp)

section \<open>Properties of the trust adapters\<close>

subsection \<open>Trimmed strings\<close>

lemma dropWhile_fixed: "xs = [] \<or> \<not> P (hd xs) \<Longrightarrow> dropWhile P xs = xs"
  by (cases xs) auto

lemma dropWhile_head: "dropWhile P xs = [] \<or> \<not> P (hd (dropWhile P xs))"
  using hd_dropWhile[of P xs] by blast

lemma trim_idem: "trim (trim s) = trim s"
proof -
  define u where "u = dropWhile is_space s"
  define w where "w = dropWhile is_space (rev u)"
  have t: "trim s = rev w" by (simp add: trim_def u_def w_def)
  have u: "u = [] \<or> \<not> is_space (hd u)" unfolding u_def by (rule dropWhile_head)
  have w: "w = [] \<or> \<not> is_space (hd w)" unfolding w_def by (rule dropWhile_head)
  have front: "dropWhile is_space (rev w) = rev w"
  proof (cases "w = []")
    case True
    then show ?thesis by simp
  next
    case False
    then have "rev u \<noteq> []" by (auto simp: w_def)
    then have une: "u \<noteq> []" by simp
    with u have hu: "\<not> is_space (hd u)" by simp
    obtain v where v: "rev u = v @ w" "\<forall>x \<in> set v. is_space x"
      unfolding w_def
      by (metis takeWhile_dropWhile_id set_takeWhileD)
    from v(1) have "u = rev w @ rev v" by (metis rev_append rev_rev_ident)
    with False have "hd (rev w) = hd u" by simp
    with hu show ?thesis by (intro dropWhile_fixed) simp
  qed
  have "trim (rev w) = rev (dropWhile is_space (rev (rev w)))"
    by (simp add: trim_def front)
  also have "\<dots> = rev w" using w by (simp add: dropWhile_fixed)
  finally show ?thesis by (simp add: t)
qed

lemma validateDeviceId_trim: "validateDeviceId (Some c) = Some d \<Longrightarrow> d = trim c"
  by (auto simp: validateDeviceId_def Let_def split: if_splits)

lemma altNames_trimmed: "a \<in> set (parseSubjectAltNames v) \<Longrightarrow> trim a = a"
  by (auto simp: parseSubjectAltNames_def trim_idem split: if_splits option.splits)

lemma values_trimmed_update:
  "values_trimmed result \<Longrightarrow> \<forall>v \<in> set vs. trim v = v \<Longrightarrow> values_trimmed (AList.update key vs result)"
  by (auto simp: values_trimmed_def update_conv')

lemma dn_collect_step:
  "dn_collect result (segment # segments) = None \<or>
   (\<exists>result'. dn_collect result (segment # segments) = dn_collect result' segments \<and>
               (values_trimmed result \<longrightarrow> values_trimmed result'))"
proof (cases "indexOf segment (CHR ''='')")
  case None
  then show ?thesis by auto
next
  case (Some i)
  define key where "key = trim (take i segment)"
  define v where "v = trim (drop (i + 1) segment)"
  have tv: "trim v = v" by (simp add: v_def trim_idem)
  have unf: "dn_collect result (segment # segments) =
     (if key = [] \<or> v = [] then dn_collect result segments
      else (case map_of result key of
              Some vs \<Rightarrow> dn_collect (AList.update key (vs @ [v]) result) segments
            | None \<Rightarrow>
                if key \<in> set object_prototype_keys then None
                else dn_collect (AList.update key [v] result) segments))"
    unfolding key_def v_def using Some by (simp add: Let_def split: option.splits)
  show ?thesis
  proof (cases "key = [] \<or> v = []")
    case True
    with unf show ?thesis by auto
  next
    case False
    show ?thesis
    proof (cases "map_of result key")
      case None
      show ?thesis
      proof (cases "key \<in> set object_prototype_keys")
        case True
        with unf False None show ?thesis by simp
      next
        case notproto: False
        have "values_trimmed result \<longrightarrow> values_trimmed (AList.update key [v] result)"
          using tv by (auto intro: values_trimmed_update)
        moreover have "dn_collect result (segment # segments) = dn_collect (AList.update key [v] result) segments"
          using unf False None notproto by simp
        ultimately show ?thesis by blast
      qed
    next
      case (Some vs)
      have "values_trimmed result \<longrightarrow> values_trimmed (AList.update key (vs @ [v]) result)"
      proof
        assume a: "values_trimmed result"
        with Some have "\<forall>x \<in> set vs. trim x = x" by (auto simp: values_trimmed_def)
        with tv have "\<forall>x \<in> set (vs @ [v]). trim x = x" by auto
        with a show "values_trimmed (AList.update key (vs @ [v]) result)"
          by (rule values_trimmed_update)
      qed
      moreover have "dn_collect result (segment # segments) = dn_collect (AList.update key (vs @ [v]) result) segments"
        using unf False Some by simp
      ultimately show ?thesis by blast
    qed
  qed
qed

lemma dn_collect_trimmed:
  "dn_collect result segments = Some m \<Longrightarrow> values_trimmed result \<Longrightarrow> values_trimmed m"
proof (induction segments arbitrary: result)
  case Nil
  then show ?case by simp
next
  case (Cons segment segments)
  from dn_collect_step[of result segment segments] Cons.prems(1)
  obtain result' where r: "dn_collect result' segments = Some m"
    "values_trimmed result \<longrightarrow> values_trimmed result'"
    by auto
  with Cons.prems(2) have "values_trimmed result'" by simp
  with r(1) show ?case by (rule Cons.IH)
qed

lemma parseDistinguishedName_trimmed:
  "parseDistinguishedName input = Some m \<Longrightarrow> map_of m ''CN'' = Some (cn # cns) \<Longrightarrow> trim cn = cn"
proof -
  assume a: "parseDistinguishedName input = Some m" "map_of m ''CN'' = Some (cn # cns)"
  have "values_trimmed []" by (simp add: values_trimmed_def)
  with a(1) have "values_trimmed m"
    unfolding parseDistinguishedName_def by (rule dn_collect_trimmed)
  with a(2) show "trim cn = cn" by (auto simp: values_trimmed_def)
qed

subsection \<open>The certificate adapter\<close>

lemma candidate_trimmed:
  assumes "parseDistinguishedName s = Some m" "candidate_id (parseSubjectAltNames v) m = Some c"
  shows "trim c = c"
proof (cases "parseSubjectAltNames v")
  case Nil
  with assms(2) obtain cns where "map_of m ''CN'' = Some (c # cns)"
    by (auto simp: candidate_id_def split: option.splits list.splits)
  with assms(1) show ?thesis by (rule parseDistinguishedName_trimmed)
next
  case (Cons a as)
  with assms(2) have "c = a" by (simp add: candidate_id_def)
  moreover from Cons have "a \<in> set (parseSubjectAltNames v)" by simp
  ultimately show ?thesis by (simp add: altNames_trimmed)
qed

lemma certificate_identity_candidate:
  "parseDistinguishedName (subject cert) = Some m \<Longrightarrow>
   certificate_identity cert = candidate_id (parseSubjectAltNames (subjectAltName cert)) m"
  by (simp add: certificate_identity_def candidate_id_def split: list.splits)

lemma load_ca_read:
  assumes "mtls_configured cfg"
  obtains members v where "cfg = Some members" "map_of members ''ca_cert_path'' = Some v" "json_truthy v"
    "load_ca rt cfg =
       (case (case v of JStr p \<Rightarrow> readFileSync rt p | _ \<Rightarrow> None) of
          None \<Rightarrow> None | Some caCertPem \<Rightarrow> new_X509Certificate rt caCertPem)"
  using assms
  by (auto simp: mtls_configured_def load_ca_def config_string_def split: option.splits json.splits)

lemma mtls_no_certificate: "falsy clientCert \<Longrightarrow> authenticateMTLS rt now now' clientCert cfg = Inr None"
  by (simp add: authenticateMTLS_def)

lemma mtls_unconfigured:
  "\<not> falsy clientCert \<Longrightarrow> \<not> mtls_configured cfg \<Longrightarrow>
   authenticateMTLS rt now now' clientCert cfg = Inl ''mTLS CA certificate path not configured''"
  by (auto simp: authenticateMTLS_def mtls_configured_def split: option.splits)

lemma mtls_not_loaded:
  assumes "mtls_configured cfg" "load_ca rt cfg = None \<or> new_X509Certificate rt pem = None"
  shows "authenticateMTLS rt now now' (Some pem) cfg = Inr None"
proof -
  from assms(1) obtain members v where c: "cfg = Some members" "map_of members ''ca_cert_path'' = Some v"
    "json_truthy v"
    "load_ca rt cfg =
       (case (case v of JStr p \<Rightarrow> readFileSync rt p | _ \<Rightarrow> None) of
          None \<Rightarrow> None | Some caCertPem \<Rightarrow> new_X509Certificate rt caCertPem)"
    by (rule load_ca_read)
  show ?thesis
    using assms(2) c
    by (auto simp: authenticateMTLS_def split: option.splits)
qed

lemma mtls_loaded:
  assumes "pem \<noteq> []" "mtls_configured cfg" "load_ca rt cfg = Some ca"
    "new_X509Certificate rt pem = Some cert"
  shows "authenticateMTLS rt now now' (Some pem) cfg =
     (if in_validity_window rt now cert \<and> signed_by cert ca \<and> key_usage_ok cert then
        (case parseDistinguishedName (subject cert) of
           None \<Rightarrow> Inr None
         | Some subjectMap \<Rightarrow>
             (case validateDeviceId (candidate_id (parseSubjectAltNames (subjectAltName cert)) subjectMap) of
                None \<Rightarrow> Inr None
              | Some deviceId \<Rightarrow>
                  Inr (Some \<lparr>device_id = deviceId, device_name = None, user_id = None,
                             auth_method = ''mtls'', ip_address = ''0.0.0.0'', verified_at = now'\<rparr>)))
      else Inr None)"
proof -
  from assms(2) obtain members v where c: "cfg = Some members" "map_of members ''ca_cert_path'' = Some v"
    "json_truthy v"
    "load_ca rt cfg =
       (case (case v of JStr p \<Rightarrow> readFileSync rt p | _ \<Rightarrow> None) of
          None \<Rightarrow> None | Some caCertPem \<Rightarrow> new_X509Certificate rt caCertPem)"
    by (rule load_ca_read)
  from c(4) assms(3) obtain caCertPem where r: "(case v of JStr p \<Rightarrow> readFileSync rt p | _ \<Rightarrow> None) = Some caCertPem"
    "new_X509Certificate rt caCertPem = Some ca"
    by (auto split: option.splits)
  show ?thesis
    using assms(1,4) c(1-3) r
    by (auto simp: authenticateMTLS_def falsy_def in_validity_window_def signed_by_def key_usage_ok_def
        split: option.splits)
qed

text \<open>
  Claim C6. For every client certificate and configured CA certificate: when the
  certificate adapter returns an identity, the validity window contains the current
  time, the certificate is signed by the CA's public key, its key usage (when the
  extension is present) includes the digital signature, and the \<^verbatim>\<open>device_id\<close> is the
  first subject alternative name when there is one, else the common name, itself a valid
  device identifier; the IP address is the sentinel \<^verbatim>\<open>0.0.0.0\<close>. With a CA path
  configured, a certificate outside its validity window, one not signed by the CA, one
  whose key usage lacks the digital signature, a parse failure (of the CA file, of
  either certificate, of the subject) or a candidate that fails validation gives
  \<^verbatim>\<open>null\<close>; when every check passes the identity is returned. The source runs the
  checks in the order window, signature, key usage, as \<open>authenticateMTLS\<close> does; no
  check has an effect, so the order does not show in the result.
\<close>

theorem mtls_verifies_and_identifies:
  "(authenticateMTLS rt now now' clientCert cfg = Inr (Some dev) \<longrightarrow>
      (\<exists>pem ca cert.
         clientCert = Some pem \<and> load_ca rt cfg = Some ca \<and> new_X509Certificate rt pem = Some cert \<and>
         in_validity_window rt now cert \<and> signed_by cert ca \<and> key_usage_ok cert \<and>
         certificate_identity cert = Some (device_id dev) \<and>
         validateDeviceId (Some (device_id dev)) = Some (device_id dev) \<and>
         ip_address dev = ''0.0.0.0'' \<and> auth_method dev = ''mtls'')) \<and>
   (mtls_configured cfg \<and> clientCert = Some pem \<and>
    (load_ca rt cfg = None \<or> new_X509Certificate rt pem = None \<or>
     (\<exists>ca cert. load_ca rt cfg = Some ca \<and> new_X509Certificate rt pem = Some cert \<and>
        (\<not> in_validity_window rt now cert \<or> \<not> signed_by cert ca \<or> \<not> key_usage_ok cert \<or>
         parseDistinguishedName (subject cert) = None \<or>
         (case certificate_identity cert of
            None \<Rightarrow> True | Some c \<Rightarrow> validateDeviceId (Some c) = None)))) \<longrightarrow>
      authenticateMTLS rt now now' clientCert cfg = Inr None) \<and>
   (mtls_configured cfg \<and> clientCert = Some pem \<and> pem \<noteq> [] \<and>
    load_ca rt cfg = Some ca \<and> new_X509Certificate rt pem = Some cert \<and>
    in_validity_window rt now cert \<and> signed_by cert ca \<and> key_usage_ok cert \<and>
    parseDistinguishedName (subject cert) \<noteq> None \<and>
    certificate_identity cert = Some c \<and> validateDeviceId (Some c) \<noteq> None \<longrightarrow>
      authenticateMTLS rt now now' clientCert cfg =
        Inr (Some \<lparr>device_id = c, device_name = None, user_id = None, auth_method = ''mtls'',
                   ip_address = ''0.0.0.0'', verified_at = now'\<rparr>))"
proof (intro conjI impI)
  assume ok: "authenticateMTLS rt now now' clientCert cfg = Inr (Some dev)"
  then have nf: "\<not> falsy clientCert"
    using mtls_no_certificate[of clientCert rt now now' cfg] by auto
  then obtain pem where pem: "clientCert = Some pem" "pem \<noteq> []"
    by (auto simp: falsy_def split: option.splits)
  from ok nf have conf: "mtls_configured cfg"
    using mtls_unconfigured[of clientCert cfg rt now now'] by auto
  from ok pem conf obtain ca cert where l: "load_ca rt cfg = Some ca" "new_X509Certificate rt pem = Some cert"
    using mtls_not_loaded[of cfg rt pem now now'] by (cases "load_ca rt cfg"; cases "new_X509Certificate rt pem") auto
  note nfm = mtls_loaded[OF pem(2) conf l, of now now']
  from ok nfm pem(1) have checks: "in_validity_window rt now cert" "signed_by cert ca" "key_usage_ok cert"
    by (auto split: if_splits)
  from ok nfm pem(1) checks obtain m where m: "parseDistinguishedName (subject cert) = Some m"
    by (auto split: option.splits)
  from ok nfm pem(1) checks m obtain c where c: "candidate_id (parseSubjectAltNames (subjectAltName cert)) m = Some c"
    "validateDeviceId (Some c) = Some (device_id dev)" "ip_address dev = ''0.0.0.0''" "auth_method dev = ''mtls''"
    by (cases "candidate_id (parseSubjectAltNames (subjectAltName cert)) m")
       (auto simp: validateDeviceId_def split: option.splits)
  from m c(1) have "trim c = c" by (rule candidate_trimmed)
  with c(2) have eq: "device_id dev = c" using validateDeviceId_trim by fastforce
  from m c(1) eq have ci: "certificate_identity cert = Some (device_id dev)"
    by (simp add: certificate_identity_candidate)
  from pem(1) l checks ci c eq
  show "\<exists>pem ca cert.
         clientCert = Some pem \<and> load_ca rt cfg = Some ca \<and> new_X509Certificate rt pem = Some cert \<and>
         in_validity_window rt now cert \<and> signed_by cert ca \<and> key_usage_ok cert \<and>
         certificate_identity cert = Some (device_id dev) \<and>
         validateDeviceId (Some (device_id dev)) = Some (device_id dev) \<and>
         ip_address dev = ''0.0.0.0'' \<and> auth_method dev = ''mtls''"
    by auto
next
  assume a: "mtls_configured cfg \<and> clientCert = Some pem \<and>
    (load_ca rt cfg = None \<or> new_X509Certificate rt pem = None \<or>
     (\<exists>ca cert. load_ca rt cfg = Some ca \<and> new_X509Certificate rt pem = Some cert \<and>
        (\<not> in_validity_window rt now cert \<or> \<not> signed_by cert ca \<or> \<not> key_usage_ok cert \<or>
         parseDistinguishedName (subject cert) = None \<or>
         (case certificate_identity cert of
            None \<Rightarrow> True | Some c \<Rightarrow> validateDeviceId (Some c) = None))))"
  show "authenticateMTLS rt now now' clientCert cfg = Inr None"
  proof (cases "pem = []")
    case True
    with a show ?thesis by (simp add: mtls_no_certificate falsy_def)
  next
    case False
    show ?thesis
    proof (cases "load_ca rt cfg = None \<or> new_X509Certificate rt pem = None")
      case True
      with a show ?thesis by (simp add: mtls_not_loaded)
    next
      case nl: False
      with a obtain ca cert where l: "load_ca rt cfg = Some ca" "new_X509Certificate rt pem = Some cert"
        and bad: "\<not> in_validity_window rt now cert \<or> \<not> signed_by cert ca \<or> \<not> key_usage_ok cert \<or>
         parseDistinguishedName (subject cert) = None \<or>
         (case certificate_identity cert of
            None \<Rightarrow> True | Some c \<Rightarrow> validateDeviceId (Some c) = None)"
        by auto
      from a have conf: "mtls_configured cfg" and cc: "clientCert = Some pem" by simp_all
      note nfm = mtls_loaded[OF False conf l, of now now']
      show ?thesis
      proof (cases "parseDistinguishedName (subject cert)")
        case None
        with nfm cc show ?thesis by simp
      next
        case (Some m)
        have "validateDeviceId None = None" by (simp add: validateDeviceId_def)
        with bad Some show ?thesis
          unfolding cc nfm certificate_identity_candidate[OF Some]
          by (auto split: option.splits)
      qed
    qed
  qed
next
  assume a: "mtls_configured cfg \<and> clientCert = Some pem \<and> pem \<noteq> [] \<and>
    load_ca rt cfg = Some ca \<and> new_X509Certificate rt pem = Some cert \<and>
    in_validity_window rt now cert \<and> signed_by cert ca \<and> key_usage_ok cert \<and>
    parseDistinguishedName (subject cert) \<noteq> None \<and>
    certificate_identity cert = Some c \<and> validateDeviceId (Some c) \<noteq> None"
  then obtain m d where m: "parseDistinguishedName (subject cert) = Some m"
    and d: "validateDeviceId (Some c) = Some d" by auto
  from a m have cand: "candidate_id (parseSubjectAltNames (subjectAltName cert)) m = Some c"
    by (simp add: certificate_identity_candidate)
  from m cand have "trim c = c" by (rule candidate_trimmed)
  with d have "d = c" using validateDeviceId_trim by fastforce
  with a m cand d show "authenticateMTLS rt now now' clientCert cfg =
        Inr (Some \<lparr>device_id = c, device_name = None, user_id = None, auth_method = ''mtls'',
                   ip_address = ''0.0.0.0'', verified_at = now'\<rparr>)"
    using mtls_loaded[of pem cfg rt ca cert now now'] by simp
qed

theorem mtls_verifies_and_identifies_witness:
  "authenticateMTLS (example_runtime FetchThrows) 2000 2001 (Some ''CLIENT PEM'') example_mtls_config =
     Inr (Some \<lparr>device_id = ''laptop-7.fleet'', device_name = None, user_id = None,
                auth_method = ''mtls'', ip_address = ''0.0.0.0'', verified_at = 2001\<rparr>) \<and>
   authenticateMTLS (example_runtime FetchThrows) 2000 2001 (Some ''CLIENT PEM NO SAN'') example_mtls_config =
     Inr (Some \<lparr>device_id = ''laptop-7'', device_name = None, user_id = None,
                auth_method = ''mtls'', ip_address = ''0.0.0.0'', verified_at = 2001\<rparr>) \<and>
   authenticateMTLS (example_runtime FetchThrows) 6000 6001 (Some ''CLIENT PEM'') example_mtls_config = Inr None"
proof -
  let ?rt = "example_runtime FetchThrows"
  let ?san = "example_cert (Some ''DNS:laptop-7.fleet, IP Address:10.0.0.1'')"
  let ?cn = "example_cert None"
  have conf: "mtls_configured example_mtls_config"
    by (simp add: mtls_configured_def example_mtls_config_def json_truthy_def)
  have ca: "load_ca ?rt example_mtls_config = Some example_ca"
    by (simp add: load_ca_def config_string_def example_mtls_config_def example_runtime_def)
  have certs: "new_X509Certificate ?rt ''CLIENT PEM'' = Some ?san"
    "new_X509Certificate ?rt ''CLIENT PEM NO SAN'' = Some ?cn"
    by (simp_all add: example_runtime_def)
  have window: "in_validity_window ?rt 2000 ?san" "in_validity_window ?rt 2000 ?cn"
    "\<not> in_validity_window ?rt 6000 ?san"
    by (simp_all add: in_validity_window_def example_runtime_def example_cert_def)
  have signed: "signed_by ?san example_ca" "signed_by ?cn example_ca"
    by (simp_all add: signed_by_def example_cert_def example_ca_def)
  have usage: "key_usage_ok ?san" "key_usage_ok ?cn"
    by (simp_all add: key_usage_ok_def example_cert_def)
  have subj: "subject ?san = ''O=Acme,CN=laptop-7''" "subject ?cn = ''O=Acme,CN=laptop-7''"
    "subjectAltName ?san = Some ''DNS:laptop-7.fleet, IP Address:10.0.0.1''" "subjectAltName ?cn = None"
    by (simp_all add: example_cert_def)
  have dn: "parseDistinguishedName ''O=Acme,CN=laptop-7'' = Some [(''O'', [''Acme'']), (''CN'', [''laptop-7''])]"
    by code_simp
  have sans: "parseSubjectAltNames (Some ''DNS:laptop-7.fleet, IP Address:10.0.0.1'') = [''laptop-7.fleet'', ''10.0.0.1'']"
    "parseSubjectAltNames None = []"
    by code_simp+
  have ident: "certificate_identity ?san = Some ''laptop-7.fleet''" "certificate_identity ?cn = Some ''laptop-7''"
    by (simp_all add: certificate_identity_def subj dn sans)
  have valid: "validateDeviceId (Some ''laptop-7.fleet'') \<noteq> None" "validateDeviceId (Some ''laptop-7'') \<noteq> None"
    by code_simp+
  have dnok: "parseDistinguishedName (subject ?san) \<noteq> None" "parseDistinguishedName (subject ?cn) \<noteq> None"
    by (simp_all add: subj dn)
  have ne: "''CLIENT PEM'' \<noteq> []" "''CLIENT PEM NO SAN'' \<noteq> []" by simp_all
  from mtls_verifies_and_identifies[of ?rt 2000 2001 "Some ''CLIENT PEM''" example_mtls_config _
      "''CLIENT PEM''" example_ca ?san "''laptop-7.fleet''"]
    conf ca certs(1) window(1) signed(1) usage(1) dnok(1) ident(1) valid(1) ne(1)
  have 1: "authenticateMTLS ?rt 2000 2001 (Some ''CLIENT PEM'') example_mtls_config =
     Inr (Some \<lparr>device_id = ''laptop-7.fleet'', device_name = None, user_id = None,
                auth_method = ''mtls'', ip_address = ''0.0.0.0'', verified_at = 2001\<rparr>)"
    by blast
  from mtls_verifies_and_identifies[of ?rt 2000 2001 "Some ''CLIENT PEM NO SAN''" example_mtls_config _
      "''CLIENT PEM NO SAN''" example_ca ?cn "''laptop-7''"]
    conf ca certs(2) window(2) signed(2) usage(2) dnok(2) ident(2) valid(2) ne(2)
  have 2: "authenticateMTLS ?rt 2000 2001 (Some ''CLIENT PEM NO SAN'') example_mtls_config =
     Inr (Some \<lparr>device_id = ''laptop-7'', device_name = None, user_id = None,
                auth_method = ''mtls'', ip_address = ''0.0.0.0'', verified_at = 2001\<rparr>)"
    by blast
  from mtls_verifies_and_identifies[of ?rt 6000 6001 "Some ''CLIENT PEM''" example_mtls_config _
      "''CLIENT PEM''" example_ca ?san "''laptop-7.fleet''"]
    conf ca certs(1) window(3)
  have 3: "authenticateMTLS ?rt 6000 6001 (Some ''CLIENT PEM'') example_mtls_config = Inr None"
    by blast
  from 1 2 3 show ?thesis by blast
qed

subsection \<open>Failures during request handling\<close>
















end
